theory Spec2Isabelle
  imports Complex_Main
begin

section \<open>The ticket queue\<close>

text \<open>
  \<^verbatim>\<open>rasa/core/lock_store.py\<close> imports \<^verbatim>\<open>TicketLock\<close> from \<^verbatim>\<open>rasa.core.lock\<close>, a module
  that is not among the sources. The lock store calls nine of its members: the
  constructor, \<^verbatim>\<open>conversation_id\<close>, \<^verbatim>\<open>issue_ticket\<close>, \<^verbatim>\<open>is_locked\<close>,
  \<^verbatim>\<open>remove_expired_tickets\<close>, \<^verbatim>\<open>is_someone_waiting\<close>, \<^verbatim>\<open>remove_ticket_for\<close>,
  \<^verbatim>\<open>dumps\<close> and \<^verbatim>\<open>from_dict\<close>. They are modelled here from the specification's
  TicketQueue (sections 3 and 4.1); everything after this section is translated from
  \<^verbatim>\<open>lock_store.py\<close> itself. Timestamps and lifetimes are real numbers, ticket numbers
  and attempt counts are Python integers.
\<close>

text \<open>
  Modelled from the spec: the data of \<^verbatim>\<open>rasa.core.lock\<close>, a ticket with its number and
  \<^verbatim>\<open>expiresAt\<close>, and the queue with its conversation id, its tickets in issue order and
  \<^verbatim>\<open>nextTicketNumber\<close>.
\<close>

record Ticket =
  number :: int
  expires_at :: real

record TicketLock =
  conversation_id :: string
  tickets :: "Ticket list"
  next_ticket_number :: int

text \<open>
  Modelled from the spec: the constructor \<^verbatim>\<open>TicketLock(conversation_id)\<close>. A new queue
  holds no ticket; scenarios A to C call the first ticket issued on it ticket 1.
\<close>

definition TicketLock_init :: "string \<Rightarrow> TicketLock" where
  "TicketLock_init cid = \<lparr>conversation_id = cid, tickets = [], next_ticket_number = 1\<rparr>"

text \<open>
  Modelled from the spec: \<^verbatim>\<open>pruneExpired\<close>, which removes every ticket whose
  \<^verbatim>\<open>expiresAt <= now\<close>. The clock reading is a parameter.
\<close>

definition TicketLock_remove_expired_tickets :: "real \<Rightarrow> TicketLock \<Rightarrow> TicketLock" where
  "TicketLock_remove_expired_tickets t q =
     q\<lparr>tickets := filter (\<lambda>k. \<not> expires_at k \<le> t) (tickets q)\<rparr>"

text \<open>
  Modelled from the spec: \<^verbatim>\<open>issue(lifetime)\<close> appends
  \<^verbatim>\<open>Ticket{nextTicketNumber, now + lifetime}\<close>, increments the counter and returns the
  new number.
\<close>

definition TicketLock_issue_ticket :: "real \<Rightarrow> real \<Rightarrow> TicketLock \<Rightarrow> int \<times> TicketLock" where
  "TicketLock_issue_ticket t life q =
     (next_ticket_number q,
      q\<lparr>tickets := tickets q @ [\<lparr>number = next_ticket_number q, expires_at = t + life\<rparr>],
        next_ticket_number := next_ticket_number q + 1\<rparr>)"

text \<open>
  Modelled from the spec: \<^verbatim>\<open>isInTurn(ticketNumber)\<close> prunes expired tickets, then is
  true iff the number equals the minimum remaining ticket number or the queue holds no
  ticket at all. \<^verbatim>\<open>is_locked\<close>, the member the lock store calls, is its negation.
  Both leave the pruned queue behind.
\<close>

definition TicketLock_is_in_turn :: "real \<Rightarrow> int \<Rightarrow> TicketLock \<Rightarrow> bool \<times> TicketLock" where
  "TicketLock_is_in_turn t n q =
     (let q' = TicketLock_remove_expired_tickets t q
      in (tickets q' = [] \<or> n = Min (set (map number (tickets q'))), q'))"

definition TicketLock_is_locked :: "real \<Rightarrow> int \<Rightarrow> TicketLock \<Rightarrow> bool \<times> TicketLock" where
  "TicketLock_is_locked t n q =
     (let (turn, q') = TicketLock_is_in_turn t n q in (\<not> turn, q'))"

text \<open>
  Modelled from the spec: \<^verbatim>\<open>remove(ticketNumber)\<close> deletes the ticket if present and
  is idempotent.
\<close>

definition TicketLock_remove_ticket_for :: "int \<Rightarrow> TicketLock \<Rightarrow> TicketLock" where
  "TicketLock_remove_ticket_for n q =
     q\<lparr>tickets := filter (\<lambda>k. number k \<noteq> n) (tickets q)\<rparr>"

text \<open>
  Modelled from the spec: \<^verbatim>\<open>hasWaiters()\<close> is true iff, after pruning, at least one
  ticket remains.
\<close>

definition TicketLock_is_someone_waiting :: "real \<Rightarrow> TicketLock \<Rightarrow> bool \<times> TicketLock" where
  "TicketLock_is_someone_waiting t q =
     (let q' = TicketLock_remove_expired_tickets t q in (tickets q' \<noteq> [], q'))"

text \<open>
  Modelled from the spec: \<^verbatim>\<open>serialize\<close> and \<^verbatim>\<open>deserialize\<close>. The stored value is the
  structural snapshot of section 6 (conversation id, the tickets as pairs of number and
  expiry, the counter); the JSON text that carries it is not modelled.
\<close>

datatype serialised = Snapshot string "(int \<times> real) list" int

definition TicketLock_dumps :: "TicketLock \<Rightarrow> serialised" where
  "TicketLock_dumps q =
     Snapshot (conversation_id q) (map (\<lambda>k. (number k, expires_at k)) (tickets q))
       (next_ticket_number q)"

fun TicketLock_from_dict :: "serialised \<Rightarrow> TicketLock" where
  "TicketLock_from_dict (Snapshot cid ks c) =
     \<lparr>conversation_id = cid,
      tickets = map (\<lambda>(n, e). \<lparr>number = n, expires_at = e\<rparr>) ks,
      next_ticket_number = c\<rparr>"

section \<open>The lock store and the world it runs in\<close>

text \<open>\<^verbatim>\<open>DEFAULT_LOCK_LIFETIME = 60\<close> (\<^verbatim>\<open>rasa/core/constants.py\<close>).\<close>

definition DEFAULT_LOCK_LIFETIME :: int where
  "DEFAULT_LOCK_LIFETIME = 60"

definition ACCEPTED_LOCK_STORES :: "string list" where
  "ACCEPTED_LOCK_STORES = [''in_memory'', ''redis'']"

text \<open>
  The exceptions that leave the lock store. \<^verbatim>\<open>LockError\<close> carries the conversation id
  its message names, \<^verbatim>\<open>ValueError\<close> the store type its message names.
  \<^verbatim>\<open>BackendUnavailable\<close> stands for the connection error the redis client raises when
  the server cannot be reached; no method of the lock store catches it.
\<close>

datatype error = LockError string | ValueError string | BackendUnavailable

text \<open>
  The client object \<^verbatim>\<open>redis.StrictRedis(host, port, db, password)\<close> together with the
  key space of the server it talks to.
\<close>

record StrictRedis =
  host :: "string option"
  port :: int
  db :: int
  password :: "string option"
  keyspace :: "string \<Rightarrow> serialised option"

text \<open>
  The two subclasses of \<^verbatim>\<open>LockStore\<close>. The in-memory store maps a conversation id to a
  live \<^verbatim>\<open>TicketLock\<close> object, that is to a reference into the heap below; the redis
  store holds serialised copies.
\<close>

datatype LockStore =
    InMemoryLockStore (lifetime: real) (conversation_locks: "string \<Rightarrow> nat option")
  | RedisLockStore (lifetime: real) (red: StrictRedis)

text \<open>
  What a method call leaves behind for an observer, in call order: the storage methods,
  the methods of \<^verbatim>\<open>TicketLock\<close>, \<^verbatim>\<open>asyncio.sleep\<close>, the deletion flag passed to
  \<^verbatim>\<open>_log_deletion\<close>, and a connection error raised by the redis client.
\<close>

datatype event =
    EvGetLock string
  | EvSaveLock
  | EvDeleteLock string
  | EvLogDeletion string bool
  | EvBackendError
  | EvSleep real
  | EvIssueTicket real
  | EvIsLocked int
  | EvRemoveExpired
  | EvRemoveTicketFor int
  | EvIsSomeoneWaiting

text \<open>
  The state a call runs in: the store object \<^verbatim>\<open>self\<close>, the heap of \<^verbatim>\<open>TicketLock\<close>
  objects with the next free reference, the clock \<^verbatim>\<open>time.time()\<close>, the trace of
  events so far, and the availability of the redis server: the request issued when the
  trace has length \<open>i\<close> raises iff \<open>unreachable i\<close>. The clock stands still while
  synchronous code runs and moves while the caller sleeps.

  A method takes the world and returns its result, or the exception it raised, together
  with the world it leaves: an exception does not undo what was done before it.
\<close>

record world =
  self :: LockStore
  heap :: "nat \<Rightarrow> TicketLock"
  next_ref :: nat
  now :: real
  trace :: "event list"
  unreachable :: "nat \<Rightarrow> bool"

definition emit :: "event \<Rightarrow> world \<Rightarrow> world" where
  "emit e w = w\<lparr>trace := trace w @ [e]\<rparr>"

definition new_object :: "TicketLock \<Rightarrow> world \<Rightarrow> nat \<times> world" where
  "new_object q w = (next_ref w, w\<lparr>heap := (heap w)(next_ref w := q), next_ref := Suc (next_ref w)\<rparr>)"

subsection \<open>The storage methods of the two subclasses\<close>

text \<open>
  \<^verbatim>\<open>InMemoryLockStore.get_lock\<close> returns \<^verbatim>\<open>self.conversation_locks.get(conversation_id)\<close>,
  the stored object itself. \<^verbatim>\<open>RedisLockStore.get_lock\<close> reads the key and, if a value
  is there, builds a new object from it; otherwise it falls off its end and returns
  \<^verbatim>\<open>None\<close>.
\<close>

definition get_lock :: "string \<Rightarrow> world \<Rightarrow> (error + nat option) \<times> world" where
  "get_lock cid w =
     (case self w of
        InMemoryLockStore lt locks \<Rightarrow> (Inr (locks cid), emit (EvGetLock cid) w)
      | RedisLockStore lt r \<Rightarrow>
          if unreachable w (length (trace w))
          then (Inl BackendUnavailable, emit EvBackendError (emit (EvGetLock cid) w))
          else (case keyspace r cid of
                  None \<Rightarrow> (Inr None, emit (EvGetLock cid) w)
                | Some s \<Rightarrow>
                    (let (l, w') = new_object (TicketLock_from_dict s) (emit (EvGetLock cid) w)
                     in (Inr (Some l), w'))))"

text \<open>
  \<^verbatim>\<open>save_lock(lock)\<close> stores under \<^verbatim>\<open>lock.conversation_id\<close>: the object itself in
  memory, \<^verbatim>\<open>lock.dumps()\<close> in redis.
\<close>

definition save_lock :: "nat \<Rightarrow> world \<Rightarrow> (error + unit) \<times> world" where
  "save_lock l w =
     (let cid = conversation_id (heap w l) in
      case self w of
        InMemoryLockStore lt locks \<Rightarrow>
          (Inr (), (emit EvSaveLock w)\<lparr>self := InMemoryLockStore lt (locks(cid \<mapsto> l))\<rparr>)
      | RedisLockStore lt r \<Rightarrow>
          if unreachable w (length (trace w))
          then (Inl BackendUnavailable, emit EvBackendError (emit EvSaveLock w))
          else (Inr (), (emit EvSaveLock w)
                  \<lparr>self := RedisLockStore lt
                     (r\<lparr>keyspace := (keyspace r)(cid \<mapsto> TicketLock_dumps (heap w l))\<rparr>)\<rparr>))"

text \<open>
  \<^verbatim>\<open>delete_lock\<close> removes the record and hands \<^verbatim>\<open>_log_deletion\<close> a flag: in memory
  whether \<^verbatim>\<open>pop\<close> returned an object, in redis the number of keys the server deleted.
  Neither subclass has a \<^verbatim>\<open>return\<close> statement, so the call evaluates to \<^verbatim>\<open>None\<close>; the
  result type \<open>bool option\<close> has room for a flag so that this is a statement about the
  code and not about the type.
\<close>

definition log_deletion :: "string \<Rightarrow> bool \<Rightarrow> world \<Rightarrow> world" where
  "log_deletion cid deletion_successful w = emit (EvLogDeletion cid deletion_successful) w"

definition delete_lock :: "string \<Rightarrow> world \<Rightarrow> (error + bool option) \<times> world" where
  "delete_lock cid w =
     (case self w of
        InMemoryLockStore lt locks \<Rightarrow>
          (let deleted_lock = locks cid;
               w1 = (emit (EvDeleteLock cid) w)\<lparr>self := InMemoryLockStore lt (locks(cid := None))\<rparr>
           in (Inr None, log_deletion cid (deleted_lock \<noteq> None) w1))
      | RedisLockStore lt r \<Rightarrow>
          if unreachable w (length (trace w))
          then (Inl BackendUnavailable, emit EvBackendError (emit (EvDeleteLock cid) w))
          else (let deletion_successful = (if keyspace r cid = None then 0 else 1 :: int);
                    w1 = (emit (EvDeleteLock cid) w)
                           \<lparr>self := RedisLockStore lt (r\<lparr>keyspace := (keyspace r)(cid := None)\<rparr>)\<rparr>
                in (Inr None, log_deletion cid (deletion_successful \<noteq> 0) w1)))"

subsection \<open>Construction\<close>

text \<open>
  Modelled from the spec: \<^verbatim>\<open>EndpointConfig\<close> (\<^verbatim>\<open>rasa.utils.endpoints\<close>, not among the
  sources), of which \<^verbatim>\<open>find_lock_store\<close> reads \<^verbatim>\<open>type\<close>, \<^verbatim>\<open>url\<close> and \<^verbatim>\<open>kwargs\<close>. It
  is the configuration of section 6, with the keyword arguments restricted to the
  parameters \<^verbatim>\<open>RedisLockStore.__init__\<close> declares, port and database index already
  numbers.
\<close>

record Kwargs =
  kw_port :: "int option"
  kw_db :: "int option"
  kw_password :: "string option"
  kw_lifetime :: "real option"

record EndpointConfig =
  url :: "string option"
  type :: "string option"
  kwargs :: Kwargs

definition InMemoryLockStore_init :: "real \<Rightarrow> LockStore" where
  "InMemoryLockStore_init lt = InMemoryLockStore lt (\<lambda>cid. None)"

text \<open>
  \<^verbatim>\<open>RedisLockStore.__init__(host, port=6379, db=1, password=None, lifetime=60)\<close>. The
  first argument is the key space of the server the new client will talk to.
\<close>

definition RedisLockStore_init ::
  "(string \<Rightarrow> serialised option) \<Rightarrow> string option \<Rightarrow> Kwargs \<Rightarrow> LockStore" where
  "RedisLockStore_init server h kw =
     RedisLockStore
       (case kw_lifetime kw of None \<Rightarrow> real_of_int DEFAULT_LOCK_LIFETIME | Some lt \<Rightarrow> lt)
       \<lparr>host = h,
        port = (case kw_port kw of None \<Rightarrow> 6379 | Some p \<Rightarrow> p),
        db = (case kw_db kw of None \<Rightarrow> 1 | Some d \<Rightarrow> d),
        password = kw_password kw,
        keyspace = server\<rparr>"

definition find_lock_store ::
  "(string \<Rightarrow> serialised option) \<Rightarrow> EndpointConfig option \<Rightarrow> error + LockStore" where
  "find_lock_store server store =
     (case store of
        None \<Rightarrow> Inr (InMemoryLockStore_init (real_of_int DEFAULT_LOCK_LIFETIME))
      | Some cfg \<Rightarrow>
          (case type cfg of
             None \<Rightarrow> Inr (InMemoryLockStore_init (real_of_int DEFAULT_LOCK_LIFETIME))
           | Some k \<Rightarrow>
               if k = ''in_memory''
               then Inr (InMemoryLockStore_init (real_of_int DEFAULT_LOCK_LIFETIME))
               else if k = ''redis''
               then Inr (RedisLockStore_init server (url cfg) (kwargs cfg))
               else Inl (ValueError k)))"

subsection \<open>The methods of \<^verbatim>\<open>TicketLock\<close> on heap objects\<close>

text \<open>
  Each method reads the clock where the queue operation needs it and mutates the object
  in place. An object fetched from the in-memory store is the stored one, so the store
  sees the mutation at once; an object fetched from redis is a copy.
\<close>

definition lock_issue_ticket :: "nat \<Rightarrow> real \<Rightarrow> world \<Rightarrow> int \<times> world" where
  "lock_issue_ticket l life w =
     (let (n, q) = TicketLock_issue_ticket (now w) life (heap w l)
      in (n, (emit (EvIssueTicket life) w)\<lparr>heap := (heap w)(l := q)\<rparr>))"

definition is_locked :: "nat \<Rightarrow> int \<Rightarrow> world \<Rightarrow> bool \<times> world" where
  "is_locked l n w =
     (let (b, q) = TicketLock_is_locked (now w) n (heap w l)
      in (b, (emit (EvIsLocked n) w)\<lparr>heap := (heap w)(l := q)\<rparr>))"

definition remove_expired_tickets :: "nat \<Rightarrow> world \<Rightarrow> world" where
  "remove_expired_tickets l w =
     (emit EvRemoveExpired w)
       \<lparr>heap := (heap w)(l := TicketLock_remove_expired_tickets (now w) (heap w l))\<rparr>"

definition remove_ticket_for :: "nat \<Rightarrow> int \<Rightarrow> world \<Rightarrow> world" where
  "remove_ticket_for l n w =
     (emit (EvRemoveTicketFor n) w)
       \<lparr>heap := (heap w)(l := TicketLock_remove_ticket_for n (heap w l))\<rparr>"

definition lock_is_someone_waiting :: "nat \<Rightarrow> world \<Rightarrow> bool \<times> world" where
  "lock_is_someone_waiting l w =
     (let (b, q) = TicketLock_is_someone_waiting (now w) (heap w l)
      in (b, (emit EvIsSomeoneWaiting w)\<lparr>heap := (heap w)(l := q)\<rparr>))"

subsection \<open>The methods of \<^verbatim>\<open>LockStore\<close>\<close>

text \<open>
  The tests \<^verbatim>\<open>if lock:\<close>, \<^verbatim>\<open>if existing_lock:\<close> and \<^verbatim>\<open>if not lock:\<close> are read as the
  specification reads them, as asking whether the fetch returned a record at all: a
  \<^verbatim>\<open>TicketLock\<close> object counts as true whatever its queue holds, and a serialised
  record is never the empty text.
\<close>

definition create_lock :: "string \<Rightarrow> world \<Rightarrow> (error + nat) \<times> world" where
  "create_lock cid w =
     (let (l, w1) = new_object (TicketLock_init cid) w in
      case save_lock l w1 of
        (Inl e, w2) \<Rightarrow> (Inl e, w2)
      | (Inr u, w2) \<Rightarrow> (Inr l, w2))"

definition get_or_create_lock :: "string \<Rightarrow> world \<Rightarrow> (error + nat) \<times> world" where
  "get_or_create_lock cid w =
     (case get_lock cid w of
        (Inl e, w1) \<Rightarrow> (Inl e, w1)
      | (Inr (Some existing_lock), w1) \<Rightarrow> (Inr existing_lock, w1)
      | (Inr None, w1) \<Rightarrow> create_lock cid w1)"

text \<open>
  \<^verbatim>\<open>issue_ticket(conversation_id, lifetime=DEFAULT_LOCK_LIFETIME)\<close>. The argument is
  \<open>None\<close> only when a caller passes Python's \<^verbatim>\<open>None\<close>; a caller that leaves the
  argument out passes the default of the signature (see \<open>lock\<close> below).
\<close>

definition issue_ticket :: "string \<Rightarrow> real option \<Rightarrow> world \<Rightarrow> (error + int) \<times> world" where
  "issue_ticket cid lifetime_arg w =
     (case get_or_create_lock cid w of
        (Inl e, w1) \<Rightarrow> (Inl e, w1)
      | (Inr l, w1) \<Rightarrow>
          (let life = (case lifetime_arg of Some x \<Rightarrow> x | None \<Rightarrow> lifetime (self w1));
               (ticket, w2) = lock_issue_ticket l life w1
           in case save_lock l w2 of
                (Inl e, w3) \<Rightarrow> (Inl e, w3)
              | (Inr u, w3) \<Rightarrow> (Inr ticket, w3)))"

definition update_lock :: "string \<Rightarrow> world \<Rightarrow> (error + unit) \<times> world" where
  "update_lock cid w =
     (case get_lock cid w of
        (Inl e, w1) \<Rightarrow> (Inl e, w1)
      | (Inr None, w1) \<Rightarrow> (Inr (), w1)
      | (Inr (Some l), w1) \<Rightarrow> save_lock l (remove_expired_tickets l w1))"

definition is_someone_waiting :: "string \<Rightarrow> world \<Rightarrow> (error + bool) \<times> world" where
  "is_someone_waiting cid w =
     (case get_lock cid w of
        (Inl e, w1) \<Rightarrow> (Inl e, w1)
      | (Inr None, w1) \<Rightarrow> (Inr False, w1)
      | (Inr (Some l), w1) \<Rightarrow> (let (b, w2) = lock_is_someone_waiting l w1 in (Inr b, w2)))"

definition finish_serving :: "string \<Rightarrow> int \<Rightarrow> world \<Rightarrow> (error + unit) \<times> world" where
  "finish_serving cid ticket_number w =
     (case get_lock cid w of
        (Inl e, w1) \<Rightarrow> (Inl e, w1)
      | (Inr None, w1) \<Rightarrow> (Inr (), w1)
      | (Inr (Some l), w1) \<Rightarrow> save_lock l (remove_ticket_for l ticket_number w1))"

definition cleanup :: "string \<Rightarrow> int \<Rightarrow> world \<Rightarrow> (error + unit) \<times> world" where
  "cleanup cid ticket_number w =
     (case finish_serving cid ticket_number w of
        (Inl e, w1) \<Rightarrow> (Inl e, w1)
      | (Inr u, w1) \<Rightarrow>
          (case is_someone_waiting cid w1 of
             (Inl e, w2) \<Rightarrow> (Inl e, w2)
           | (Inr True, w2) \<Rightarrow> (Inr (), w2)
           | (Inr False, w2) \<Rightarrow>
               (case delete_lock cid w2 of
                  (Inl e, w3) \<Rightarrow> (Inl e, w3)
                | (Inr r, w3) \<Rightarrow> (Inr (), w3))))"

subsection \<open>Acquisition\<close>

text \<open>
  \<^verbatim>\<open>await asyncio.sleep(wait)\<close> suspends the caller. The clock moves on by the wait
  interval and whatever else runs in the meantime (other coroutines, other processes,
  the redis server, more time) acts on the world through \<open>others\<close>; the caller's own
  trace is the one thing it cannot touch.
\<close>

definition asyncio_sleep :: "(world \<Rightarrow> world) \<Rightarrow> real \<Rightarrow> world \<Rightarrow> world" where
  "asyncio_sleep others wait w =
     (others (w\<lparr>now := now w + wait\<rparr>))\<lparr>trace := trace w @ [EvSleep wait]\<rparr>"

text \<open>
  One pass through the body of the \<^verbatim>\<open>while\<close> loop of \<^verbatim>\<open>_acquire_lock\<close> and the four
  ways it ends: \<^verbatim>\<open>return lock\<close>, \<^verbatim>\<open>break\<close>, falling through to \<^verbatim>\<open>attempts -= 1\<close>, or
  an exception of the backend passing through.
\<close>

datatype exit = Return nat | Break | Continue | Raise error

definition acquire_lock_body ::
  "(world \<Rightarrow> world) \<Rightarrow> string \<Rightarrow> int \<Rightarrow> real \<Rightarrow> world \<Rightarrow> exit \<times> world" where
  "acquire_lock_body others cid ticket wait w =
     (case get_lock cid w of
        (Inl e, w1) \<Rightarrow> (Raise e, w1)
      | (Inr None, w1) \<Rightarrow> (Break, w1)
      | (Inr (Some l), w1) \<Rightarrow>
          (case is_locked l ticket w1 of
             (False, w2) \<Rightarrow> (Return l, w2)
           | (True, w2) \<Rightarrow>
               (case update_lock cid (asyncio_sleep others wait w2) of
                  (Inl e, w3) \<Rightarrow> (Raise e, w3)
                | (Inr u, w3) \<Rightarrow> (Continue, w3))))"

function acquire_lock ::
  "(world \<Rightarrow> world) \<Rightarrow> string \<Rightarrow> int \<Rightarrow> int \<Rightarrow> real \<Rightarrow> world \<Rightarrow> (error + nat) \<times> world" where
  "acquire_lock others cid ticket attempts wait w =
     (if attempts > 0 then
        (case acquire_lock_body others cid ticket wait w of
           (Return l, w') \<Rightarrow> (Inr l, w')
         | (Break, w') \<Rightarrow> (Inl (LockError cid), w')
         | (Raise e, w') \<Rightarrow> (Inl e, w')
         | (Continue, w') \<Rightarrow> acquire_lock others cid ticket (attempts - 1) wait w')
      else (Inl (LockError cid), w))"
  by pat_completeness auto
termination
  by (relation "measure (\<lambda>(others, cid, ticket, attempts, wait, w). nat attempts)") auto

declare acquire_lock.simps [simp del]

text \<open>
  The context manager \<^verbatim>\<open>lock\<close>: issue a ticket, acquire, run the caller's block
  (\<open>block\<close>, given the lock object), and clean up in the \<^verbatim>\<open>finally\<close> clause on every
  path after the ticket was issued. It calls \<^verbatim>\<open>self.issue_ticket(conversation_id)\<close>
  without a lifetime, so the default of the signature is what \<^verbatim>\<open>issue_ticket\<close>
  receives. An exception of \<^verbatim>\<open>cleanup\<close> replaces the one in flight.
\<close>

definition lock ::
  "(world \<Rightarrow> world) \<Rightarrow> (nat \<Rightarrow> world \<Rightarrow> (error + 'a) \<times> world) \<Rightarrow>
   string \<Rightarrow> int \<Rightarrow> real \<Rightarrow> world \<Rightarrow> (error + 'a) \<times> world" where
  "lock others block cid attempts wait_time_in_seconds w =
     (case issue_ticket cid (Some (real_of_int DEFAULT_LOCK_LIFETIME)) w of
        (Inl e, w1) \<Rightarrow> (Inl e, w1)
      | (Inr ticket, w1) \<Rightarrow>
          (let (r, w3) =
                 (case acquire_lock others cid ticket attempts wait_time_in_seconds w1 of
                    (Inl e, w2) \<Rightarrow> (Inl e, w2)
                  | (Inr l, w2) \<Rightarrow> block l w2)
           in case cleanup cid ticket w3 of
                (Inl e, w4) \<Rightarrow> (Inl e, w4)
              | (Inr u, w4) \<Rightarrow> (r, w4)))"

section \<open>Observations and example worlds\<close>

text \<open>Whether the backend holds a record for a conversation id.\<close>

definition has_record :: "world \<Rightarrow> string \<Rightarrow> bool" where
  "has_record w cid =
     (case self w of
        InMemoryLockStore lt locks \<Rightarrow> locks cid \<noteq> None
      | RedisLockStore lt r \<Rightarrow> keyspace r cid \<noteq> None)"

text \<open>The queue the backend holds for a conversation id, if any.\<close>

definition stored_queue :: "world \<Rightarrow> string \<Rightarrow> TicketLock option" where
  "stored_queue w cid =
     (case self w of
        InMemoryLockStore lt locks \<Rightarrow> map_option (heap w) (locks cid)
      | RedisLockStore lt r \<Rightarrow> map_option TicketLock_from_dict (keyspace r cid))"

text \<open>
  An earlier ticket is holding the lock up to a deadline: the stored queue has a ticket
  with a smaller number that expires after the deadline, the clock has not passed the
  deadline, and the backend answers every request. \<open>blocked_for\<close> puts the deadline
  \<open>j\<close> wait intervals ahead of the clock.
\<close>

definition blocked_until :: "string \<Rightarrow> int \<Rightarrow> real \<Rightarrow> world \<Rightarrow> bool" where
  "blocked_until cid ticket deadline w =
     ((case stored_queue w cid of
         None \<Rightarrow> False
       | Some q \<Rightarrow> \<exists>k \<in> set (tickets q). number k < ticket \<and> deadline < expires_at k) \<and>
      now w \<le> deadline \<and> (\<forall>i. \<not> unreachable w i))"

definition blocked_for :: "string \<Rightarrow> int \<Rightarrow> real \<Rightarrow> nat \<Rightarrow> world \<Rightarrow> bool" where
  "blocked_for cid ticket wait j w = blocked_until cid ticket (now w + real j * wait) w"

text \<open>
  The lock exists and stays locked against the caller's ticket for \<open>k\<close> passes of the
  loop: each pass finds the record, finds the ticket locked, survives the update, and
  leaves a record behind.
\<close>

fun remains_locked ::
  "(world \<Rightarrow> world) \<Rightarrow> string \<Rightarrow> int \<Rightarrow> real \<Rightarrow> nat \<Rightarrow> world \<Rightarrow> bool" where
  "remains_locked others cid ticket wait 0 w = True"
| "remains_locked others cid ticket wait (Suc k) w =
     (case acquire_lock_body others cid ticket wait w of
        (Continue, w') \<Rightarrow> has_record w' cid \<and> remains_locked others cid ticket wait k w'
      | (Return l, w') \<Rightarrow> False
      | (Break, w') \<Rightarrow> False
      | (Raise e, w') \<Rightarrow> False)"

text \<open>
  The world at the head of the loop of \<^verbatim>\<open>_acquire_lock\<close> after \<open>k\<close> passes through its
  body.
\<close>

fun after_passes ::
  "(world \<Rightarrow> world) \<Rightarrow> string \<Rightarrow> int \<Rightarrow> real \<Rightarrow> nat \<Rightarrow> world \<Rightarrow> world" where
  "after_passes others cid ticket wait 0 w = w"
| "after_passes others cid ticket wait (Suc k) w =
     after_passes others cid ticket wait k (snd (acquire_lock_body others cid ticket wait w))"

text \<open>
  The backend is unreachable for the request issued at trace length \<open>i\<close>: the store
  is a redis store and the server does not answer then. The in-memory store has no
  connection to lose.
\<close>

definition request_fails :: "world \<Rightarrow> nat \<Rightarrow> bool" where
  "request_fails w i =
     (case self w of
        InMemoryLockStore lt locks \<Rightarrow> False
      | RedisLockStore lt r \<Rightarrow> unreachable w i)"

text \<open>
  A pass of the loop that starts in \<open>w\<close> meets an unreachable backend: at its fetch,
  or, when the fetch found the lock and the ticket locked, after the sleep at the fetch
  of \<^verbatim>\<open>update_lock\<close> or, with a record there to save, at its save two events later.
\<close>

definition pass_hits_outage ::
  "(world \<Rightarrow> world) \<Rightarrow> string \<Rightarrow> int \<Rightarrow> real \<Rightarrow> world \<Rightarrow> bool" where
  "pass_hits_outage others cid ticket wait w =
     (request_fails w (length (trace w)) \<or>
      (case get_lock cid w of
         (Inr (Some l), w1) \<Rightarrow>
           (case is_locked l ticket w1 of
              (True, w2) \<Rightarrow>
                (let v = asyncio_sleep others wait w2
                 in request_fails v (length (trace v)) \<or>
                    (has_record v cid \<and> request_fails v (length (trace v) + 2)))
            | (False, w2) \<Rightarrow> False)
       | (Inr None, w1) \<Rightarrow> False
       | (Inl e, w1) \<Rightarrow> False))"

text \<open>
  A fresh in-memory store with configured lifetime \<open>lt\<close> at time 0, and a redis store
  built with the default arguments over a given key space and outage pattern.
\<close>

definition memory_world :: "real \<Rightarrow> world" where
  "memory_world lt =
     \<lparr>self = InMemoryLockStore_init lt, heap = (\<lambda>l. TicketLock_init []), next_ref = 0,
      now = 0, trace = [], unreachable = (\<lambda>i. False)\<rparr>"

definition redis_world :: "(string \<Rightarrow> serialised option) \<Rightarrow> (nat \<Rightarrow> bool) \<Rightarrow> world" where
  "redis_world server down =
     \<lparr>self = RedisLockStore_init server (Some ''localhost'')
               \<lparr>kw_port = None, kw_db = None, kw_password = None, kw_lifetime = None\<rparr>,
      heap = (\<lambda>l. TicketLock_init []), next_ref = 0,
      now = 0, trace = [], unreachable = down\<rparr>"

text \<open>
  Conversation \<open>''c''\<close> in the in-memory store after one caller, and after two callers,
  have drawn their tickets (numbers 1 and 2, both expiring at time 60).
\<close>

definition one_ticket_world :: world where
  "one_ticket_world = snd (issue_ticket ''c'' (Some 60) (memory_world 60))"

definition two_ticket_world :: world where
  "two_ticket_world = snd (issue_ticket ''c'' (Some 60) one_ticket_world)"

text \<open>
  A redis key space whose record for \<open>''c''\<close> holds ticket 0, expired at time 0, and
  tickets 1 and 2, expiring at time 60.
\<close>

definition stale_keyspace :: "string \<Rightarrow> serialised option" where
  "stale_keyspace = (\<lambda>cid. None)(''c'' \<mapsto> Snapshot ''c'' [(0, 0), (1, 60), (2, 60)] 3)"

text \<open>
  A redis key space whose record for \<open>''c''\<close> holds ticket 0, expired at time 0, and
  ticket 1, expiring at time 60, and nothing else.
\<close>

definition lone_keyspace :: "string \<Rightarrow> serialised option" where
  "lone_keyspace = (\<lambda>cid. None)(''c'' \<mapsto> Snapshot ''c'' [(0, 0), (1, 60)] 2)"

section \<open>Basic facts about the storage methods\<close>

lemmas run_defs =
  lock_def issue_ticket_def get_or_create_lock_def get_lock_def
  InMemoryLockStore_init_def RedisLockStore_init_def
  create_lock_def new_object_def save_lock_def emit_def TicketLock_init_def
  lock_issue_ticket_def TicketLock_issue_ticket_def DEFAULT_LOCK_LIFETIME_def Let_def
  acquire_lock_body_def is_locked_def TicketLock_is_locked_def TicketLock_is_in_turn_def
  TicketLock_remove_expired_tickets_def cleanup_def finish_serving_def remove_ticket_for_def
  TicketLock_remove_ticket_for_def is_someone_waiting_def lock_is_someone_waiting_def
  TicketLock_is_someone_waiting_def delete_lock_def log_deletion_def update_lock_def
  remove_expired_tickets_def asyncio_sleep_def TicketLock_dumps_def
  memory_world_def redis_world_def has_record_def one_ticket_world_def two_ticket_world_def
  stale_keyspace_def lone_keyspace_def stored_queue_def

lemmas store_splits = LockStore.splits if_splits option.splits prod.splits

subsection \<open>Only the backend raises\<close>

lemma get_lock_error: "fst (get_lock cid w) = Inl e \<Longrightarrow> e = BackendUnavailable"
  by (auto simp: get_lock_def new_object_def split: store_splits)

lemma save_lock_error: "fst (save_lock l w) = Inl e \<Longrightarrow> e = BackendUnavailable"
  by (auto simp: save_lock_def Let_def split: store_splits)

lemma delete_lock_error: "fst (delete_lock cid w) = Inl e \<Longrightarrow> e = BackendUnavailable"
  by (auto simp: delete_lock_def Let_def split: store_splits)

lemma get_lock_raises: "get_lock cid w = (Inl e, w') \<Longrightarrow> e = BackendUnavailable"
  using get_lock_error [of cid w e] by simp

lemma save_lock_raises: "save_lock l w = (Inl e, w') \<Longrightarrow> e = BackendUnavailable"
  using save_lock_error [of l w e] by simp

lemma delete_lock_raises: "delete_lock cid w = (Inl e, w') \<Longrightarrow> e = BackendUnavailable"
  using delete_lock_error [of cid w e] by simp

lemma create_lock_raises: "create_lock cid w = (Inl e, w') \<Longrightarrow> e = BackendUnavailable"
  by (auto simp: create_lock_def Let_def split: prod.splits sum.splits dest: save_lock_raises)

lemma get_or_create_lock_raises:
  "get_or_create_lock cid w = (Inl e, w') \<Longrightarrow> e = BackendUnavailable"
  by (auto simp: get_or_create_lock_def split: prod.splits sum.splits option.splits
        dest: get_lock_raises create_lock_raises)

lemma issue_ticket_raises: "issue_ticket cid lt w = (Inl e, w') \<Longrightarrow> e = BackendUnavailable"
  by (auto simp: issue_ticket_def Let_def split: prod.splits sum.splits
        dest: get_or_create_lock_raises save_lock_raises)

lemma update_lock_raises: "update_lock cid w = (Inl e, w') \<Longrightarrow> e = BackendUnavailable"
  by (auto simp: update_lock_def split: prod.splits sum.splits option.splits
        dest: get_lock_raises save_lock_raises)

lemma finish_serving_raises:
  "finish_serving cid n w = (Inl e, w') \<Longrightarrow> e = BackendUnavailable"
  by (auto simp: finish_serving_def split: prod.splits sum.splits option.splits
        dest: get_lock_raises save_lock_raises)

lemma is_someone_waiting_raises:
  "is_someone_waiting cid w = (Inl e, w') \<Longrightarrow> e = BackendUnavailable"
  by (auto simp: is_someone_waiting_def split: prod.splits sum.splits option.splits
        dest: get_lock_raises)

lemma cleanup_raises: "cleanup cid n w = (Inl e, w') \<Longrightarrow> e = BackendUnavailable"
  by (auto simp: cleanup_def split: prod.splits sum.splits bool.splits
        dest: finish_serving_raises is_someone_waiting_raises delete_lock_raises)

lemma acquire_lock_body_raises:
  "acquire_lock_body others cid ticket wait w = (Raise e, w') \<Longrightarrow> e = BackendUnavailable"
  by (auto simp: acquire_lock_body_def split: prod.splits sum.splits option.splits bool.splits
        dest: get_lock_raises update_lock_raises)

lemma acquire_lock_raises:
  "acquire_lock others cid ticket attempts wait w = (Inl e, w') \<Longrightarrow>
   e = BackendUnavailable \<or> e = LockError cid"
proof (induction others cid ticket attempts wait w rule: acquire_lock.induct)
  case (1 others cid ticket attempts wait w)
  note unfold = acquire_lock.simps [of others cid ticket attempts wait w]
  obtain x v where b: "acquire_lock_body others cid ticket wait w = (x, v)"
    by (cases "acquire_lock_body others cid ticket wait w")
  show ?case
  proof (cases "0 < attempts")
    case False
    with "1.prems" show ?thesis by (simp add: unfold)
  next
    case True
    show ?thesis
    proof (cases x)
      case Continue
      with True b "1.prems" "1.IH" show ?thesis by (auto simp: unfold)
    next
      case (Raise e')
      with True b "1.prems" acquire_lock_body_raises [of others cid ticket wait w e' v]
      show ?thesis by (simp add: unfold)
    qed (use True b "1.prems" in \<open>simp_all add: unfold\<close>)
  qed
qed

subsection \<open>What each method leaves on the trace and in the store\<close>

lemma get_lock_None:
  "fst (get_lock cid w) = Inr None \<Longrightarrow>
   get_lock cid w = (Inr None, w\<lparr>trace := trace w @ [EvGetLock cid]\<rparr>)"
  by (auto simp: get_lock_def emit_def new_object_def split: store_splits)

lemma get_lock_Some:
  assumes "get_lock cid w = (Inr (Some l), w1)"
  shows "trace w1 = trace w @ [EvGetLock cid]" and "self w1 = self w" and "now w1 = now w"
    and "unreachable w1 = unreachable w"
  using assms by (auto simp: get_lock_def emit_def new_object_def split: store_splits)

lemma get_lock_has_record:
  "fst (get_lock cid w) = Inr x \<Longrightarrow> (x \<noteq> None) = has_record w cid"
  by (auto simp: get_lock_def has_record_def new_object_def split: store_splits)

lemma is_locked_ok:
  assumes "is_locked l n w = (b, w2)"
  shows "trace w2 = trace w @ [EvIsLocked n]" and "self w2 = self w" and "now w2 = now w"
    and "unreachable w2 = unreachable w"
  using assms by (auto simp: is_locked_def emit_def split: prod.splits)

lemma asyncio_sleep_trace: "trace (asyncio_sleep others wait w) = trace w @ [EvSleep wait]"
  by (simp add: asyncio_sleep_def)

lemma delete_lock_ok:
  assumes "delete_lock cid w = (Inr r, w')"
  shows "r = None"
    and "trace w' = trace w @ [EvDeleteLock cid, EvLogDeletion cid (has_record w cid)]"
    and "\<not> has_record w' cid"
  using assms
  by (auto simp: delete_lock_def emit_def log_deletion_def Let_def has_record_def
        split: store_splits)

lemma update_lock_ok:
  assumes "update_lock cid v = (Inr u, w')"
  shows "trace w' = trace v @
           (if has_record v cid then [EvGetLock cid, EvRemoveExpired, EvSaveLock]
            else [EvGetLock cid])"
    and "has_record w' cid = has_record v cid"
  using assms
  by (auto simp: update_lock_def get_lock_def save_lock_def remove_expired_tickets_def
        emit_def new_object_def Let_def has_record_def split: store_splits)

lemma finish_serving_ok:
  assumes "finish_serving cid n w = (Inr u, w1)"
  shows "trace w1 = trace w @
           (if has_record w cid then [EvGetLock cid, EvRemoveTicketFor n, EvSaveLock]
            else [EvGetLock cid])"
    and "has_record w1 cid = has_record w cid"
  using assms
  by (auto simp: finish_serving_def get_lock_def save_lock_def remove_ticket_for_def
        emit_def new_object_def Let_def has_record_def split: store_splits)

lemma is_someone_waiting_ok:
  assumes "is_someone_waiting cid w = (Inr b, w2)"
  shows "trace w2 = trace w @
           (if has_record w cid then [EvGetLock cid, EvIsSomeoneWaiting] else [EvGetLock cid])"
    and "self w2 = self w"
  using assms
  by (auto simp: is_someone_waiting_def get_lock_def lock_is_someone_waiting_def
        emit_def new_object_def Let_def has_record_def split: store_splits)

lemma is_someone_waiting_fetched:
  "fst (is_someone_waiting cid w) = Inr b \<Longrightarrow> \<exists>x. fst (get_lock cid w) = Inr x"
  by (cases "get_lock cid w") (auto simp: is_someone_waiting_def split: sum.splits)

text \<open>
  A queue that has waiters still has them when asked again at the same clock reading:
  pruning twice at one instant removes nothing more.
\<close>

lemma waiting_stays_waiting:
  "is_someone_waiting cid w = (Inr True, w2) \<Longrightarrow> fst (is_someone_waiting cid w2) \<noteq> Inr False"
  by (auto simp: is_someone_waiting_def get_lock_def lock_is_someone_waiting_def
        TicketLock_is_someone_waiting_def TicketLock_remove_expired_tickets_def
        emit_def new_object_def Let_def split: store_splits)

subsection \<open>Connection errors on the trace\<close>

text \<open>
  Every method extends the trace, and the extension holds \<open>EvBackendError\<close> exactly
  when the method ends in \<open>BackendUnavailable\<close>.
\<close>

lemma get_lock_events:
  "\<exists>evs. trace (snd (get_lock cid w)) = trace w @ evs \<and>
         (EvBackendError \<in> set evs) = (fst (get_lock cid w) = Inl BackendUnavailable)"
  by (auto simp: get_lock_def emit_def new_object_def split: store_splits)

lemma save_lock_events:
  "\<exists>evs. trace (snd (save_lock l w)) = trace w @ evs \<and>
         (EvBackendError \<in> set evs) = (fst (save_lock l w) = Inl BackendUnavailable)"
  by (auto simp: save_lock_def emit_def Let_def split: store_splits)

lemma update_lock_events:
  "\<exists>evs. trace (snd (update_lock cid w)) = trace w @ evs \<and>
         (EvBackendError \<in> set evs) = (fst (update_lock cid w) = Inl BackendUnavailable)"
proof -
  obtain r w1 where g: "get_lock cid w = (r, w1)" by (cases "get_lock cid w")
  from get_lock_events [of cid w] g obtain evs1
    where e1: "trace w1 = trace w @ evs1"
      and f1: "(EvBackendError \<in> set evs1) = (r = Inl BackendUnavailable)"
    by auto
  show ?thesis
  proof (cases r)
    case (Inl e)
    with g e1 f1 show ?thesis by (auto simp: update_lock_def)
  next
    case (Inr x)
    show ?thesis
    proof (cases x)
      case None
      with Inr g e1 f1 show ?thesis by (auto simp: update_lock_def)
    next
      case (Some l)
      let ?v = "remove_expired_tickets l w1"
      have tv: "trace ?v = trace w @ evs1 @ [EvRemoveExpired]"
        using e1 by (simp add: remove_expired_tickets_def emit_def)
      from save_lock_events [of l ?v] obtain evs2
        where e2: "trace (snd (save_lock l ?v)) = trace ?v @ evs2"
          and f2: "(EvBackendError \<in> set evs2) = (fst (save_lock l ?v) = Inl BackendUnavailable)"
        by auto
      have "update_lock cid w = save_lock l ?v"
        using g Inr Some by (simp add: update_lock_def)
      with tv e2 f2 f1 Inr show ?thesis by auto
    qed
  qed
qed

lemma acquire_lock_body_events:
  "\<exists>evs. trace (snd (acquire_lock_body others cid ticket wait w)) = trace w @ evs \<and>
         (EvBackendError \<in> set evs) =
           (fst (acquire_lock_body others cid ticket wait w) = Raise BackendUnavailable)"
proof -
  obtain r w1 where g: "get_lock cid w = (r, w1)" by (cases "get_lock cid w")
  from get_lock_events [of cid w] g obtain evs1
    where e1: "trace w1 = trace w @ evs1"
      and f1: "(EvBackendError \<in> set evs1) = (r = Inl BackendUnavailable)"
    by auto
  show ?thesis
  proof (cases r)
    case (Inl e)
    with g e1 f1 get_lock_error [of cid w e] show ?thesis
      by (auto simp: acquire_lock_body_def)
  next
    case (Inr x)
    show ?thesis
    proof (cases x)
      case None
      with Inr g e1 f1 show ?thesis by (auto simp: acquire_lock_body_def)
    next
      case (Some l)
      obtain b w2 where c: "is_locked l ticket w1 = (b, w2)" by (cases "is_locked l ticket w1")
      have t2: "trace w2 = trace w @ evs1 @ [EvIsLocked ticket]"
        using is_locked_ok(1) [OF c] e1 by simp
      show ?thesis
      proof (cases b)
        case False
        with g Inr Some c t2 f1 show ?thesis by (auto simp: acquire_lock_body_def)
      next
        case True
        let ?v = "asyncio_sleep others wait w2"
        have tv: "trace ?v = trace w @ evs1 @ [EvIsLocked ticket, EvSleep wait]"
          using t2 by (simp add: asyncio_sleep_trace)
        from update_lock_events [of cid ?v] obtain evs2
          where e2: "trace (snd (update_lock cid ?v)) = trace ?v @ evs2"
            and f2: "(EvBackendError \<in> set evs2) =
                     (fst (update_lock cid ?v) = Inl BackendUnavailable)"
          by auto
        obtain r3 w3 where u: "update_lock cid ?v = (r3, w3)" by (cases "update_lock cid ?v")
        have body: "acquire_lock_body others cid ticket wait w =
                    (case r3 of Inl e \<Rightarrow> (Raise e, w3) | Inr u \<Rightarrow> (Continue, w3))"
          using g Inr Some c True u by (simp add: acquire_lock_body_def)
        have "trace w3 = trace w @ (evs1 @ [EvIsLocked ticket, EvSleep wait] @ evs2)"
          using e2 tv u by simp
        moreover have "(EvBackendError \<in> set (evs1 @ [EvIsLocked ticket, EvSleep wait] @ evs2)) =
                       (r3 = Inl BackendUnavailable)"
          using f1 f2 u Inr by simp
        ultimately show ?thesis
          using body by (cases r3) auto
      qed
    qed
  qed
qed

lemma acquire_lock_events:
  "\<exists>evs. trace (snd (acquire_lock others cid ticket attempts wait w)) = trace w @ evs \<and>
         (EvBackendError \<in> set evs) =
           (fst (acquire_lock others cid ticket attempts wait w) = Inl BackendUnavailable)"
proof (induction others cid ticket attempts wait w rule: acquire_lock.induct)
  case (1 others cid ticket attempts wait w)
  note unfold = acquire_lock.simps [of others cid ticket attempts wait w]
  obtain x v where b: "acquire_lock_body others cid ticket wait w = (x, v)"
    by (cases "acquire_lock_body others cid ticket wait w")
  from acquire_lock_body_events [of others cid ticket wait w] b obtain evs1
    where e1: "trace v = trace w @ evs1"
      and f1: "(EvBackendError \<in> set evs1) = (x = Raise BackendUnavailable)"
    by auto
  show ?case
  proof (cases "0 < attempts")
    case False
    then show ?thesis by (simp add: unfold)
  next
    case True
    show ?thesis
    proof (cases x)
      case Continue
      from "1.IH" [OF True b [symmetric] Continue] obtain evs2
        where e2: "trace (snd (acquire_lock others cid ticket (attempts - 1) wait v)) =
                   trace v @ evs2"
          and f2: "(EvBackendError \<in> set evs2) =
                   (fst (acquire_lock others cid ticket (attempts - 1) wait v) =
                    Inl BackendUnavailable)"
        by auto
      have "acquire_lock others cid ticket attempts wait w =
            acquire_lock others cid ticket (attempts - 1) wait v"
        using True b Continue by (simp add: unfold)
      with e1 e2 f1 f2 Continue show ?thesis by auto
    next
      case (Raise e)
      with b acquire_lock_body_raises [of others cid ticket wait w e v] True e1 f1
      show ?thesis by (auto simp: unfold)
    next
      case (Return l)
      with b True e1 f1 show ?thesis by (auto simp: unfold)
    next
      case Break
      with b True e1 f1 show ?thesis by (auto simp: unfold)
    qed
  qed
qed

subsection \<open>The queue survives serialisation\<close>

lemma rebuild_tickets:
  "map (\<lambda>k. \<lparr>number = number k, expires_at = expires_at k\<rparr>) ks = ks"
  by (induction ks) simp_all

lemma from_dict_dumps: "TicketLock_from_dict (TicketLock_dumps q) = q"
  by (cases q) (simp add: TicketLock_dumps_def comp_def rebuild_tickets)

subsection \<open>What each method does to the stored queue\<close>

text \<open>
  For a record whose \<^verbatim>\<open>conversation_id\<close> is the key it is stored under, as every record
  is that \<^verbatim>\<open>create_lock\<close> made and \<^verbatim>\<open>save_lock\<close> wrote.
\<close>

lemma has_record_stored: "has_record w cid = (stored_queue w cid \<noteq> None)"
  by (auto simp: has_record_def stored_queue_def split: LockStore.splits)

lemma update_lock_state:
  assumes "update_lock cid v = (Inr u, w')"
    and "stored_queue v cid = Some q" and "conversation_id q = cid"
  shows "stored_queue w' cid = Some (TicketLock_remove_expired_tickets (now v) q)"
  using assms
  by (auto simp: update_lock_def get_lock_def save_lock_def remove_expired_tickets_def
        emit_def new_object_def Let_def stored_queue_def from_dict_dumps
        TicketLock_remove_expired_tickets_def split: store_splits)

lemma update_lock_now: "update_lock cid v = (r, w') \<Longrightarrow> now w' = now v"
  by (auto simp: update_lock_def get_lock_def save_lock_def remove_expired_tickets_def
        emit_def new_object_def Let_def split: store_splits sum.splits)

lemma finish_serving_state:
  assumes "finish_serving cid n w = (Inr u, w1)"
    and "stored_queue w cid = Some q" and "conversation_id q = cid"
  shows "stored_queue w1 cid = Some (TicketLock_remove_ticket_for n q)"
    and "now w1 = now w"
  using assms
  by (auto simp: finish_serving_def get_lock_def save_lock_def remove_ticket_for_def
        emit_def new_object_def Let_def stored_queue_def from_dict_dumps
        TicketLock_remove_ticket_for_def split: store_splits)

lemma finish_serving_kind:
  assumes "finish_serving cid n w = (Inr u, w1)"
  shows "(case self w1 of InMemoryLockStore lt locks \<Rightarrow> a | RedisLockStore lt r \<Rightarrow> b) =
         (case self w of InMemoryLockStore lt locks \<Rightarrow> a | RedisLockStore lt r \<Rightarrow> b)"
  using assms
  by (auto simp: finish_serving_def get_lock_def save_lock_def remove_ticket_for_def
        emit_def new_object_def Let_def split: store_splits)

text \<open>
  The waiter check prunes the object it fetched: in memory that is the stored queue, in
  redis a copy.
\<close>

lemma is_someone_waiting_state:
  assumes "is_someone_waiting cid w = (Inr b, w2)" and "stored_queue w cid = Some q"
  shows "b = (tickets (TicketLock_remove_expired_tickets (now w) q) \<noteq> [])"
    and "stored_queue w2 cid =
           Some (case self w of
                   InMemoryLockStore lt locks \<Rightarrow> TicketLock_remove_expired_tickets (now w) q
                 | RedisLockStore lt r \<Rightarrow> q)"
  using assms
  by (auto simp: is_someone_waiting_def get_lock_def lock_is_someone_waiting_def
        TicketLock_is_someone_waiting_def
        emit_def new_object_def Let_def stored_queue_def split: store_splits)

lemma delete_lock_state:
  "delete_lock cid w = (Inr r, w') \<Longrightarrow> stored_queue w' cid = None"
  by (auto simp: delete_lock_def emit_def log_deletion_def Let_def stored_queue_def
        split: store_splits)

lemma cleanup_state:
  assumes ran: "cleanup cid n w = (Inr (), w')"
    and rec: "stored_queue w cid = Some q" and wf: "conversation_id q = cid"
  shows "(\<exists>w1. finish_serving cid n w = (Inr (), w1) \<and>
               stored_queue w1 cid = Some (TicketLock_remove_ticket_for n q)) \<and>
         (if tickets (TicketLock_remove_expired_tickets (now w) (TicketLock_remove_ticket_for n q)) = []
          then stored_queue w' cid = None
          else stored_queue w' cid =
                 Some (case self w of
                         InMemoryLockStore lt locks \<Rightarrow>
                           TicketLock_remove_expired_tickets (now w) (TicketLock_remove_ticket_for n q)
                       | RedisLockStore lt r \<Rightarrow> TicketLock_remove_ticket_for n q))"
proof -
  let ?q1 = "TicketLock_remove_ticket_for n q"
  obtain u w1 where fs: "finish_serving cid n w = (Inr u, w1)"
    using ran by (auto simp: cleanup_def split: prod.splits sum.splits)
  obtain b w2 where sw: "is_someone_waiting cid w1 = (Inr b, w2)"
    using ran fs by (auto simp: cleanup_def split: prod.splits sum.splits)
  note f = finish_serving_state [OF fs rec wf]
  note i = is_someone_waiting_state [OF sw f(1)]
  have first: "\<exists>w1. finish_serving cid n w = (Inr (), w1) \<and> stored_queue w1 cid = Some ?q1"
    using fs f(1) by auto
  show ?thesis
  proof (cases b)
    case True
    with ran fs sw have "w' = w2" by (simp add: cleanup_def)
    moreover have "(case self w1 of
             InMemoryLockStore lt locks \<Rightarrow> TicketLock_remove_expired_tickets (now w1) ?q1
           | RedisLockStore lt r \<Rightarrow> ?q1) =
          (case self w of
             InMemoryLockStore lt locks \<Rightarrow> TicketLock_remove_expired_tickets (now w) ?q1
           | RedisLockStore lt r \<Rightarrow> ?q1)"
      using finish_serving_kind [OF fs, of "TicketLock_remove_expired_tickets (now w) ?q1" ?q1] f(2)
      by (simp cong: LockStore.case_cong)
    ultimately show ?thesis using True i f(2) first by simp
  next
    case False
    with ran fs sw obtain r where "delete_lock cid w2 = (Inr r, w')"
      by (auto simp: cleanup_def split: prod.splits sum.splits)
    from delete_lock_state [OF this] False i f(2) first show ?thesis by simp
  qed
qed

subsection \<open>One pass of the waiting loop\<close>

lemma waiting_round_trace:
  assumes "acquire_lock_body others cid ticket wait w = (Continue, w')"
    and "has_record w' cid"
  shows "trace w' = trace w @
           [EvGetLock cid, EvIsLocked ticket, EvSleep wait, EvGetLock cid, EvRemoveExpired,
            EvSaveLock]"
proof -
  from assms(1) obtain l w1 w2 u
    where g: "get_lock cid w = (Inr (Some l), w1)"
      and c: "is_locked l ticket w1 = (True, w2)"
      and up: "update_lock cid (asyncio_sleep others wait w2) = (Inr u, w')"
    by (auto simp: acquire_lock_body_def split: prod.splits sum.splits option.splits bool.splits)
  from update_lock_ok [OF up] assms(2)
  have "trace w' =
        trace (asyncio_sleep others wait w2) @ [EvGetLock cid, EvRemoveExpired, EvSaveLock]"
    by simp
  with get_lock_Some(1) [OF g] is_locked_ok(1) [OF c] show ?thesis
    by (simp add: asyncio_sleep_trace)
qed

text \<open>
  What a pass that goes round again does: it fetches the lock, finds the ticket locked,
  sleeps, and updates, and the update leaves the stored queue pruned at the clock
  reading after the sleep.
\<close>

lemma waiting_pass:
  assumes body: "acquire_lock_body others cid ticket wait w = (Continue, w')"
    and rec: "has_record w' cid"
  shows "\<exists>l w1 w2 q.
           get_lock cid w = (Inr (Some l), w1) \<and>
           is_locked l ticket w1 = (True, w2) \<and>
           update_lock cid (asyncio_sleep others wait w2) = (Inr (), w') \<and>
           stored_queue (asyncio_sleep others wait w2) cid = Some q \<and>
           now w' = now (asyncio_sleep others wait w2) \<and>
           (conversation_id q = cid \<longrightarrow>
              stored_queue w' cid =
                Some (TicketLock_remove_expired_tickets (now (asyncio_sleep others wait w2)) q))"
proof -
  from body obtain l w1 w2
    where g: "get_lock cid w = (Inr (Some l), w1)"
      and c: "is_locked l ticket w1 = (True, w2)"
      and up: "update_lock cid (asyncio_sleep others wait w2) = (Inr (), w')"
    by (auto simp: acquire_lock_body_def split: prod.splits sum.splits option.splits bool.splits)
  let ?v = "asyncio_sleep others wait w2"
  from update_lock_ok(2) [OF up] rec obtain q where q: "stored_queue ?v cid = Some q"
    by (auto simp: has_record_stored)
  from g c up q update_lock_now [OF up] update_lock_state(1) [OF up q] show ?thesis
    by blast
qed

subsection \<open>An earlier ticket keeps the caller waiting\<close>

lemma earlier_ticket_locks:
  assumes "k \<in> set (tickets q)" and "number k < n" and "t < expires_at k"
  shows "fst (TicketLock_is_locked t n q)"
    and "k \<in> set (tickets (snd (TicketLock_is_locked t n q)))"
proof -
  let ?ks = "filter (\<lambda>k. \<not> expires_at k \<le> t) (tickets q)"
  have kin: "k \<in> set ?ks" using assms(1,3) by simp
  then have "Min (set (map number ?ks)) \<le> number k" by (intro Min_le) auto
  with assms(2) have "n \<noteq> Min (set (map number ?ks))" by linarith
  moreover from length_pos_if_in_set [OF kin] have "?ks \<noteq> []"
    by (simp only: length_greater_0_conv simp_thms)
  ultimately show "fst (TicketLock_is_locked t n q)"
    by (simp add: TicketLock_is_locked_def TicketLock_is_in_turn_def
          TicketLock_remove_expired_tickets_def)
  from kin show "k \<in> set (tickets (snd (TicketLock_is_locked t n q)))"
    by (simp add: TicketLock_is_locked_def TicketLock_is_in_turn_def
          TicketLock_remove_expired_tickets_def)
qed

lemma blocked_check:
  assumes "blocked_until cid ticket T w"
  shows "\<exists>l w1 w2. get_lock cid w = (Inr (Some l), w1) \<and> is_locked l ticket w1 = (True, w2) \<and>
           blocked_until cid ticket T w2 \<and> now w2 = now w"
proof -
  from assms obtain q k where q: "stored_queue w cid = Some q"
    and k: "k \<in> set (tickets q)" "number k < ticket" "T < expires_at k"
    and t: "now w \<le> T"
    and up: "\<forall>i. \<not> unreachable w i"
    by (auto simp: blocked_until_def split: option.splits)
  from k(3) t have "now w < expires_at k" by simp
  note e = earlier_ticket_locks [OF k(1,2) this]
  show ?thesis
  proof (cases "self w")
    case (InMemoryLockStore lt locks)
    with q obtain l where l: "locks cid = Some l" "heap w l = q"
      by (auto simp: stored_queue_def)
    with InMemoryLockStore e k t up show ?thesis
      by (auto simp: get_lock_def is_locked_def emit_def blocked_until_def stored_queue_def
            split: prod.splits)
  next
    case (RedisLockStore lt r)
    with q obtain s where s: "keyspace r cid = Some s" "TicketLock_from_dict s = q"
      by (auto simp: stored_queue_def)
    with RedisLockStore e k t up show ?thesis
      by (auto simp: get_lock_def is_locked_def emit_def new_object_def blocked_until_def
            stored_queue_def split: prod.splits)
  qed
qed

lemma blocked_update:
  assumes "blocked_until cid ticket T v"
  shows "\<exists>w'. update_lock cid v = (Inr (), w') \<and> has_record w' cid \<and>
           blocked_until cid ticket T w' \<and> now w' = now v"
proof -
  from assms obtain q k where q: "stored_queue v cid = Some q"
    and k: "k \<in> set (tickets q)" "number k < ticket" "T < expires_at k"
    and t: "now v \<le> T"
    and up: "\<forall>i. \<not> unreachable v i"
    by (auto simp: blocked_until_def split: option.splits)
  have kept: "k \<in> set (tickets (TicketLock_remove_expired_tickets (now v) q))"
    using k t by (simp add: TicketLock_remove_expired_tickets_def)
  show ?thesis
  proof (cases "self v")
    case (InMemoryLockStore lt locks)
    with q obtain l where l: "locks cid = Some l" "heap v l = q"
      by (auto simp: stored_queue_def)
    with InMemoryLockStore kept k t up show ?thesis
      by (auto simp: update_lock_def get_lock_def save_lock_def remove_expired_tickets_def
            emit_def Let_def has_record_def blocked_until_def stored_queue_def)
  next
    case (RedisLockStore lt r)
    with q obtain s where s: "keyspace r cid = Some s" "TicketLock_from_dict s = q"
      by (auto simp: stored_queue_def)
    with RedisLockStore kept k t up show ?thesis
      by (auto simp: update_lock_def get_lock_def save_lock_def remove_expired_tickets_def
            emit_def new_object_def Let_def has_record_def blocked_until_def
            stored_queue_def from_dict_dumps)
  qed
qed

lemma blocked_round:
  assumes wait: "0 \<le> wait"
    and env: "\<And>j v. blocked_for cid ticket wait (Suc j) v \<Longrightarrow>
                   blocked_for cid ticket wait j (asyncio_sleep others wait v)"
    and start: "blocked_for cid ticket wait (Suc j) w"
  shows "\<exists>w'. acquire_lock_body others cid ticket wait w = (Continue, w') \<and>
           has_record w' cid \<and> blocked_for cid ticket wait j w'"
proof -
  from blocked_check [OF start [unfolded blocked_for_def]] obtain l w1 w2
    where g: "get_lock cid w = (Inr (Some l), w1)" and c: "is_locked l ticket w1 = (True, w2)"
      and b2: "blocked_until cid ticket (now w + real (Suc j) * wait) w2" and n2: "now w2 = now w"
    by blast
  from b2 n2 have "blocked_for cid ticket wait (Suc j) w2" by (simp add: blocked_for_def)
  from env [OF this] have bv: "blocked_until cid ticket
      (now (asyncio_sleep others wait w2) + real j * wait) (asyncio_sleep others wait w2)"
    by (simp add: blocked_for_def)
  from blocked_update [OF bv] obtain w'
    where "update_lock cid (asyncio_sleep others wait w2) = (Inr (), w')"
      and "has_record w' cid"
      and "blocked_until cid ticket (now (asyncio_sleep others wait w2) + real j * wait) w'"
      and "now w' = now (asyncio_sleep others wait w2)"
    by blast
  with g c show ?thesis by (simp add: acquire_lock_body_def blocked_for_def)
qed

text \<open>
  If an earlier ticket holds the lock long enough and whatever runs while the caller
  sleeps leaves it so (the ticket is not released, the clock does not run past the
  deadline, the backend stays up), the lock remains locked against the caller's ticket
  for all \<open>N\<close> passes.
\<close>

lemma earlier_ticket_remains_locked:
  assumes wait: "0 \<le> wait"
    and env: "\<And>j v. blocked_for cid ticket wait (Suc j) v \<Longrightarrow>
                   blocked_for cid ticket wait j (asyncio_sleep others wait v)"
    and start: "blocked_for cid ticket wait N w"
  shows "remains_locked others cid ticket wait N w"
  using start
proof (induction N arbitrary: w)
  case 0
  show ?case by simp
next
  case (Suc N)
  from blocked_round [OF wait env Suc.prems] obtain w'
    where "acquire_lock_body others cid ticket wait w = (Continue, w')"
      and "has_record w' cid" and "blocked_for cid ticket wait N w'"
    by blast
  with Suc.IH [of w'] show ?case by simp
qed

text \<open>
  With nothing else running, the premise about the sleep holds: the sleep moves the
  clock by the wait interval and nothing more. So behind an earlier ticket that outlives
  \<open>N\<close> wait intervals an undisturbed caller stays locked out for \<open>N\<close> passes.
\<close>

lemma quiet_sleep:
  assumes "blocked_for cid ticket wait (Suc j) v" and "0 \<le> wait"
  shows "blocked_for cid ticket wait j (asyncio_sleep id wait v)"
  using assms
  by (auto simp: blocked_for_def blocked_until_def asyncio_sleep_def stored_queue_def
        algebra_simps split: option.splits LockStore.splits)

lemma undisturbed_remains_locked:
  assumes "0 \<le> wait" and "blocked_for cid ticket wait N w"
  shows "remains_locked id cid ticket wait N w"
  using assms(1) quiet_sleep [OF _ assms(1)] assms(2) by (rule earlier_ticket_remains_locked)

subsection \<open>The context manager passes connection errors on\<close>

lemma lock_surfaces_issue_error:
  assumes "fst (issue_ticket cid (Some (real_of_int DEFAULT_LOCK_LIFETIME)) w) =
           Inl BackendUnavailable"
  shows "fst (lock others block cid attempts wait w) = Inl BackendUnavailable"
  using assms
  by (cases "issue_ticket cid (Some (real_of_int DEFAULT_LOCK_LIFETIME)) w") (simp add: lock_def)

lemma lock_surfaces_acquire_error:
  assumes "issue_ticket cid (Some (real_of_int DEFAULT_LOCK_LIFETIME)) w = (Inr tk, w1)"
    and "fst (acquire_lock others cid tk attempts wait w1) = Inl BackendUnavailable"
  shows "fst (lock others block cid attempts wait w) = Inl BackendUnavailable"
proof -
  obtain w2 where q: "acquire_lock others cid tk attempts wait w1 = (Inl BackendUnavailable, w2)"
    using assms(2) by (cases "acquire_lock others cid tk attempts wait w1") simp
  obtain r4 w4 where cl: "cleanup cid tk w2 = (r4, w4)" by (cases "cleanup cid tk w2")
  show ?thesis
  proof (cases r4)
    case (Inl e)
    with cl cleanup_raises [of cid tk w2 e w4] assms(1) q show ?thesis
      by (simp add: lock_def)
  next
    case (Inr u)
    with cl assms(1) q show ?thesis by (simp add: lock_def)
  qed
qed

text \<open>Scenario E: a redis store that cannot be reached when \<^verbatim>\<open>lock\<close> is entered.\<close>

lemma lock_unreachable:
  assumes "self w = RedisLockStore lt r" and "unreachable w (length (trace w))"
  shows "fst (lock others block cid attempts wait w) = Inl BackendUnavailable"
proof -
  have "fst (get_lock cid w) = Inl BackendUnavailable"
    using assms by (simp add: get_lock_def)
  then have "fst (issue_ticket cid (Some (real_of_int DEFAULT_LOCK_LIFETIME)) w) =
             Inl BackendUnavailable"
    by (cases "get_lock cid w") (simp add: issue_ticket_def get_or_create_lock_def)
  then show ?thesis by (rule lock_surfaces_issue_error)
qed

subsection \<open>Outages during acquisition\<close>

text \<open>
  A pass raises the connection error exactly when it meets an unreachable backend, and
  a call that has attempts left for it raises what its first such pass raises.
\<close>

lemma body_outage_iff:
  "(fst (acquire_lock_body others cid ticket wait w) = Raise BackendUnavailable) =
   pass_hits_outage others cid ticket wait w"
  by (auto simp: pass_hits_outage_def request_fails_def acquire_lock_body_def
        update_lock_def get_lock_def save_lock_def remove_expired_tickets_def is_locked_def
        asyncio_sleep_def emit_def new_object_def Let_def has_record_def
        split: store_splits sum.splits bool.splits)

lemma acquire_lock_skip:
  assumes "int k < attempts"
    and "\<forall>j<k. fst (acquire_lock_body others cid ticket wait
                        (after_passes others cid ticket wait j w)) = Continue"
  shows "acquire_lock others cid ticket attempts wait w =
         acquire_lock others cid ticket (attempts - int k) wait
           (after_passes others cid ticket wait k w)"
  using assms
proof (induction k arbitrary: w attempts)
  case 0
  show ?case by simp
next
  case (Suc k)
  let ?w' = "snd (acquire_lock_body others cid ticket wait w)"
  from Suc.prems(2) have body: "fst (acquire_lock_body others cid ticket wait w) = Continue"
    by (metis after_passes.simps(1) zero_less_Suc)
  have pos: "0 < attempts" using Suc.prems(1) by simp
  have step: "acquire_lock others cid ticket attempts wait w =
              acquire_lock others cid ticket (attempts - 1) wait ?w'"
    using body pos by (subst acquire_lock.simps) (simp add: case_prod_unfold)
  have "\<forall>j<k. fst (acquire_lock_body others cid ticket wait
                        (after_passes others cid ticket wait j ?w')) = Continue"
  proof (intro allI impI)
    fix j assume "j < k"
    then have "Suc j < Suc k" by simp
    with Suc.prems(2) have "fst (acquire_lock_body others cid ticket wait
        (after_passes others cid ticket wait (Suc j) w)) = Continue" by blast
    then show "fst (acquire_lock_body others cid ticket wait
        (after_passes others cid ticket wait j ?w')) = Continue" by simp
  qed
  moreover have "int k < attempts - 1" using Suc.prems(1) by simp
  ultimately have "acquire_lock others cid ticket (attempts - 1) wait ?w' =
      acquire_lock others cid ticket (attempts - 1 - int k) wait
        (after_passes others cid ticket wait k ?w')"
    by (rule Suc.IH [rotated])
  with step show ?case by (simp add: algebra_simps)
qed

lemma outage_in_pass:
  assumes "int k < attempts"
    and "\<forall>j<k. fst (acquire_lock_body others cid ticket wait
                        (after_passes others cid ticket wait j w)) = Continue"
    and "pass_hits_outage others cid ticket wait (after_passes others cid ticket wait k w)"
  shows "fst (acquire_lock others cid ticket attempts wait w) = Inl BackendUnavailable"
proof -
  let ?wk = "after_passes others cid ticket wait k w"
  have "fst (acquire_lock_body others cid ticket wait ?wk) = Raise BackendUnavailable"
    using assms(3) by (simp add: body_outage_iff)
  moreover have "0 < attempts - int k" using assms(1) by simp
  ultimately have "fst (acquire_lock others cid ticket (attempts - int k) wait ?wk) =
                   Inl BackendUnavailable"
    by (subst acquire_lock.simps) (simp add: case_prod_unfold)
  with acquire_lock_skip [OF assms(1,2)] show ?thesis by simp
qed

lemma first_request_unreachable:
  assumes "0 < attempts" and "self w = RedisLockStore lt r"
    and "unreachable w (length (trace w))"
  shows "acquire_lock others cid ticket attempts wait w =
           (Inl BackendUnavailable, emit EvBackendError (emit (EvGetLock cid) w))"
  using assms
  by (simp add: acquire_lock.simps [of others cid ticket attempts wait w]
        acquire_lock_body_def get_lock_def)

lemma outage_behind_error:
  "fst (acquire_lock others cid ticket attempts wait w) = Inl BackendUnavailable \<Longrightarrow>
   \<exists>k. int k < attempts \<and>
       (\<forall>j<k. fst (acquire_lock_body others cid ticket wait
                       (after_passes others cid ticket wait j w)) = Continue) \<and>
       pass_hits_outage others cid ticket wait (after_passes others cid ticket wait k w)"
proof (induction others cid ticket attempts wait w rule: acquire_lock.induct)
  case (1 others cid ticket attempts wait w)
  note unfold = acquire_lock.simps [of others cid ticket attempts wait w]
  obtain x v where b: "acquire_lock_body others cid ticket wait w = (x, v)"
    by (cases "acquire_lock_body others cid ticket wait w")
  have pos: "0 < attempts" using "1.prems" by (auto simp: unfold split: if_splits)
  show ?case
  proof (cases x)
    case Continue
    with "1.prems" b pos have
      "fst (acquire_lock others cid ticket (attempts - 1) wait v) = Inl BackendUnavailable"
      by (simp add: unfold)
    from "1.IH" [OF pos b [symmetric] Continue this] obtain k
      where k: "int k < attempts - 1"
        and c: "\<forall>j<k. fst (acquire_lock_body others cid ticket wait
                       (after_passes others cid ticket wait j v)) = Continue"
        and o: "pass_hits_outage others cid ticket wait (after_passes others cid ticket wait k v)"
      by blast
    have "\<forall>j<Suc k. fst (acquire_lock_body others cid ticket wait
                       (after_passes others cid ticket wait j w)) = Continue"
    proof (intro allI impI)
      fix j assume "j < Suc k"
      then show "fst (acquire_lock_body others cid ticket wait
                       (after_passes others cid ticket wait j w)) = Continue"
        using b Continue c by (cases j) simp_all
    qed
    moreover have "pass_hits_outage others cid ticket wait
                     (after_passes others cid ticket wait (Suc k) w)"
      using o b by simp
    moreover have "int (Suc k) < attempts" using k by simp
    ultimately show ?thesis by blast
  next
    case (Raise e)
    with "1.prems" b pos have "e = BackendUnavailable" by (simp add: unfold)
    with Raise b have "pass_hits_outage others cid ticket wait w"
      by (simp add: body_outage_iff [symmetric])
    then have "int 0 < attempts \<and>
       (\<forall>j<0. fst (acquire_lock_body others cid ticket wait
                       (after_passes others cid ticket wait j w)) = Continue) \<and>
       pass_hits_outage others cid ticket wait (after_passes others cid ticket wait 0 w)"
      using pos by simp
    then show ?thesis by blast
  next
    case (Return l)
    with "1.prems" b pos show ?thesis by (simp add: unfold)
  next
    case Break
    with "1.prems" b pos show ?thesis by (simp add: unfold)
  qed
qed

section \<open>Acquisition\<close>

text \<open>
  C2. If the lock for the conversation id exists and stays locked against the caller's
  ticket for \<open>N\<close> passes of the loop, \<^verbatim>\<open>_acquire_lock\<close> called with an attempt budget
  of \<open>N\<close> raises \<^verbatim>\<open>LockError\<close> for that conversation id after exactly \<open>N\<close> attempts,
  in the world that \<open>N\<close> passes through the loop body leave. Each attempt is one
  fetch, one in-turn check that finds the ticket locked, one sleep of the wait interval
  and one \<^verbatim>\<open>update_lock\<close> on the world after the sleep. The update does not raise, it
  finds a queue stored for the conversation id and leaves the clock alone, and when that
  queue is stored under its own conversation id, what is stored after the attempt is
  that queue with the tickets removed that had expired by the end of the sleep.
\<close>

theorem acquire_lock_times_out:
  assumes "remains_locked others cid ticket wait N w"
  shows "acquire_lock others cid ticket (int N) wait w =
           (Inl (LockError cid), after_passes others cid ticket wait N w) \<and>
         trace (after_passes others cid ticket wait N w) =
           trace w @ concat (replicate N
             [EvGetLock cid, EvIsLocked ticket, EvSleep wait, EvGetLock cid, EvRemoveExpired,
              EvSaveLock]) \<and>
         (\<forall>k<N. \<exists>l w1 w2 q.
            get_lock cid (after_passes others cid ticket wait k w) = (Inr (Some l), w1) \<and>
            is_locked l ticket w1 = (True, w2) \<and>
            update_lock cid (asyncio_sleep others wait w2) =
              (Inr (), after_passes others cid ticket wait (Suc k) w) \<and>
            stored_queue (asyncio_sleep others wait w2) cid = Some q \<and>
            now (after_passes others cid ticket wait (Suc k) w) =
              now (asyncio_sleep others wait w2) \<and>
            (conversation_id q = cid \<longrightarrow>
               stored_queue (after_passes others cid ticket wait (Suc k) w) cid =
                 Some (TicketLock_remove_expired_tickets (now (asyncio_sleep others wait w2)) q)))"
  using assms
proof (induction N arbitrary: w)
  case 0
  then show ?case by (simp add: acquire_lock.simps [of others cid ticket 0 wait w])
next
  case (Suc n)
  from Suc.prems obtain w' where
    body: "acquire_lock_body others cid ticket wait w = (Continue, w')"
    and rec: "has_record w' cid" and rest: "remains_locked others cid ticket wait n w'"
    by (auto split: prod.splits exit.splits)
  have step: "acquire_lock others cid ticket (int (Suc n)) wait w =
              acquire_lock others cid ticket (int n) wait w'"
    using body by (subst acquire_lock.simps) simp
  note ih = Suc.IH [OF rest]
  have next_world: "after_passes others cid ticket wait (Suc j) w =
                    after_passes others cid ticket wait j w'" for j
    using body by simp
  have "acquire_lock others cid ticket (int (Suc n)) wait w =
           (Inl (LockError cid), after_passes others cid ticket wait (Suc n) w)"
    using ih step next_world by simp
  moreover have "trace (after_passes others cid ticket wait (Suc n) w) =
           trace w @ concat (replicate (Suc n)
             [EvGetLock cid, EvIsLocked ticket, EvSleep wait, EvGetLock cid, EvRemoveExpired,
              EvSaveLock])"
    using ih waiting_round_trace [OF body rec] next_world by simp
  moreover have "\<exists>l w1 w2 q.
            get_lock cid (after_passes others cid ticket wait k w) = (Inr (Some l), w1) \<and>
            is_locked l ticket w1 = (True, w2) \<and>
            update_lock cid (asyncio_sleep others wait w2) =
              (Inr (), after_passes others cid ticket wait (Suc k) w) \<and>
            stored_queue (asyncio_sleep others wait w2) cid = Some q \<and>
            now (after_passes others cid ticket wait (Suc k) w) =
              now (asyncio_sleep others wait w2) \<and>
            (conversation_id q = cid \<longrightarrow>
               stored_queue (after_passes others cid ticket wait (Suc k) w) cid =
                 Some (TicketLock_remove_expired_tickets (now (asyncio_sleep others wait w2)) q))"
    if "k < Suc n" for k
  proof (cases k)
    case 0
    with waiting_pass [OF body rec] body show ?thesis by simp
  next
    case (Suc j)
    with that have "j < n" by simp
    with ih have "\<exists>l w1 w2 q.
            get_lock cid (after_passes others cid ticket wait j w') = (Inr (Some l), w1) \<and>
            is_locked l ticket w1 = (True, w2) \<and>
            update_lock cid (asyncio_sleep others wait w2) =
              (Inr (), after_passes others cid ticket wait (Suc j) w') \<and>
            stored_queue (asyncio_sleep others wait w2) cid = Some q \<and>
            now (after_passes others cid ticket wait (Suc j) w') =
              now (asyncio_sleep others wait w2) \<and>
            (conversation_id q = cid \<longrightarrow>
               stored_queue (after_passes others cid ticket wait (Suc j) w') cid =
                 Some (TicketLock_remove_expired_tickets (now (asyncio_sleep others wait w2)) q))"
      by blast
    then show ?thesis
      unfolding Suc next_world [of j] next_world [of "Suc j"] .
  qed
  ultimately show ?case by blast
qed

text \<open>
  Scenario D against redis: two attempts, 0.01 s apart, for ticket 2 behind ticket 1,
  which is never released. The stored record starts with an expired ticket 0 and ends
  without it.
\<close>

theorem acquire_lock_times_out_witness:
  "remains_locked id ''c'' 2 (1 / 100) 2 (redis_world stale_keyspace (\<lambda>i. False)) \<and>
   fst (acquire_lock id ''c'' 2 2 (1 / 100) (redis_world stale_keyspace (\<lambda>i. False))) =
     Inl (LockError ''c'') \<and>
   trace (snd (acquire_lock id ''c'' 2 2 (1 / 100) (redis_world stale_keyspace (\<lambda>i. False)))) =
     [EvGetLock ''c'', EvIsLocked 2, EvSleep (1 / 100), EvGetLock ''c'', EvRemoveExpired,
      EvSaveLock,
      EvGetLock ''c'', EvIsLocked 2, EvSleep (1 / 100), EvGetLock ''c'', EvRemoveExpired,
      EvSaveLock] \<and>
   stored_queue (redis_world stale_keyspace (\<lambda>i. False)) ''c'' =
     Some \<lparr>conversation_id = ''c'',
           tickets = [\<lparr>number = 0, expires_at = 0\<rparr>, \<lparr>number = 1, expires_at = 60\<rparr>,
                      \<lparr>number = 2, expires_at = 60\<rparr>],
           next_ticket_number = 3\<rparr> \<and>
   stored_queue (snd (acquire_lock id ''c'' 2 2 (1 / 100)
       (redis_world stale_keyspace (\<lambda>i. False)))) ''c'' =
     Some \<lparr>conversation_id = ''c'',
           tickets = [\<lparr>number = 1, expires_at = 60\<rparr>, \<lparr>number = 2, expires_at = 60\<rparr>],
           next_ticket_number = 3\<rparr>"
proof -
  let ?w = "redis_world stale_keyspace (\<lambda>i. False)"
  have held: "remains_locked id ''c'' 2 (1 / 100) (Suc (Suc 0)) ?w"
    by (simp add: run_defs del: set_filter)
  have start: "trace ?w = []"
    by (simp add: redis_world_def)
  have before: "stored_queue ?w ''c'' =
     Some \<lparr>conversation_id = ''c'',
           tickets = [\<lparr>number = 0, expires_at = 0\<rparr>, \<lparr>number = 1, expires_at = 60\<rparr>,
                      \<lparr>number = 2, expires_at = 60\<rparr>],
           next_ticket_number = 3\<rparr>"
    by (simp add: run_defs)
  have after: "stored_queue (after_passes id ''c'' 2 (1 / 100) (Suc (Suc 0)) ?w) ''c'' =
     Some \<lparr>conversation_id = ''c'',
           tickets = [\<lparr>number = 1, expires_at = 60\<rparr>, \<lparr>number = 2, expires_at = 60\<rparr>],
           next_ticket_number = 3\<rparr>"
    by (simp add: run_defs del: set_filter)
  from acquire_lock_times_out [OF held] held start before after show ?thesis
    by (simp add: numeral_2_eq_2)
qed

text \<open>
  C4. In any pass of the waiting loop (any call with attempts left), if the fetch finds
  no record for the conversation id, \<^verbatim>\<open>_acquire_lock\<close> raises \<^verbatim>\<open>LockError\<close> at once:
  the only thing it has done is that one fetch, so it has not slept, not tried again
  and not created or saved any record.
\<close>

theorem acquire_lock_absent_record:
  assumes "0 < attempts" and "fst (get_lock cid w) = Inr None"
  shows "acquire_lock others cid ticket attempts wait w =
           (Inl (LockError cid), w\<lparr>trace := trace w @ [EvGetLock cid]\<rparr>)"
  using assms(1) get_lock_None [OF assms(2)]
  by (simp add: acquire_lock.simps [of others cid ticket attempts wait w] acquire_lock_body_def)

theorem acquire_lock_absent_record_witness:
  "(0::int) < 5 \<and> fst (get_lock ''c'' (memory_world 60)) = Inr None \<and>
   acquire_lock id ''c'' 1 5 1 (memory_world 60) =
     (Inl (LockError ''c''), (memory_world 60)\<lparr>trace := [EvGetLock ''c'']\<rparr>)"
proof -
  have absent: "fst (get_lock ''c'' (memory_world 60)) = Inr None"
    by (simp add: run_defs)
  have "trace (memory_world 60) = []"
    by (simp add: memory_world_def)
  with acquire_lock_absent_record [of 5 "''c''" "memory_world 60" id 1 1, OF _ absent] absent
  show ?thesis by simp
qed

text \<open>
  C8, as the specification states it: in a pass that finds the ticket locked, the
  pruned queue is persisted first and the caller sleeps afterwards. The code sleeps
  first. Against a redis store whose record for \<open>''c''\<close> holds an expired ticket, the
  one pass of a call with a single attempt sleeps before it calls
  \<^verbatim>\<open>remove_expired_tickets\<close> and \<^verbatim>\<open>save_lock\<close>, and the stored record loses the expired
  ticket only then: if the server becomes unreachable while the caller sleeps, the
  record still holds it when the call ends.
\<close>

theorem sleep_before_persist_counterexample:
  "trace (snd (acquire_lock id ''c'' 2 1 1 (redis_world stale_keyspace (\<lambda>i. False)))) =
     [EvGetLock ''c'', EvIsLocked 2, EvSleep 1, EvGetLock ''c'', EvRemoveExpired, EvSaveLock] \<and>
   keyspace (red (self (snd (acquire_lock id ''c'' 2 1 1
       (redis_world stale_keyspace (\<lambda>i. False)))))) ''c'' =
     Some (Snapshot ''c'' [(1, 60), (2, 60)] 3) \<and>
   trace (snd (acquire_lock (\<lambda>v. v\<lparr>unreachable := \<lambda>i. True\<rparr>) ''c'' 2 1 1
       (redis_world stale_keyspace (\<lambda>i. False)))) =
     [EvGetLock ''c'', EvIsLocked 2, EvSleep 1, EvGetLock ''c'', EvBackendError] \<and>
   keyspace (red (self (snd (acquire_lock (\<lambda>v. v\<lparr>unreachable := \<lambda>i. True\<rparr>) ''c'' 2 1 1
       (redis_world stale_keyspace (\<lambda>i. False)))))) ''c'' =
     Some (Snapshot ''c'' [(0, 0), (1, 60), (2, 60)] 3)"
  by (simp add: run_defs acquire_lock.simps del: set_filter)

text \<open>
  C8, amended. In a pass of the waiting loop that fetches the lock and finds the
  caller's ticket locked, the manager first sleeps the wait interval: up to the end of
  the sleep it has called no storage method but the fetch, and the store object is as
  it was. Only then it calls \<^verbatim>\<open>update_lock\<close>, which fetches again and, if the record is
  still there, prunes expired tickets and saves the pruned queue; and only after that
  the attempt budget goes down by one.
\<close>

theorem sleep_then_update_then_decrement:
  assumes "0 < attempts"
    and "get_lock cid w = (Inr (Some l), w1)"
    and "is_locked l ticket w1 = (True, w2)"
  shows "acquire_lock others cid ticket attempts wait w =
           (case update_lock cid (asyncio_sleep others wait w2) of
              (Inl e, w3) \<Rightarrow> (Inl e, w3)
            | (Inr u, w3) \<Rightarrow> acquire_lock others cid ticket (attempts - 1) wait w3) \<and>
         self w2 = self w \<and>
         trace (asyncio_sleep others wait w2) =
           trace w @ [EvGetLock cid, EvIsLocked ticket, EvSleep wait] \<and>
         (\<forall>u w3. update_lock cid (asyncio_sleep others wait w2) = (Inr u, w3) \<longrightarrow>
            trace w3 = trace w @ [EvGetLock cid, EvIsLocked ticket, EvSleep wait, EvGetLock cid] @
              (if has_record (asyncio_sleep others wait w2) cid
               then [EvRemoveExpired, EvSaveLock] else []))"
proof -
  have "acquire_lock others cid ticket attempts wait w =
           (case update_lock cid (asyncio_sleep others wait w2) of
              (Inl e, w3) \<Rightarrow> (Inl e, w3)
            | (Inr u, w3) \<Rightarrow> acquire_lock others cid ticket (attempts - 1) wait w3)"
    using assms
    by (cases "update_lock cid (asyncio_sleep others wait w2)")
       (auto simp: acquire_lock.simps [of others cid ticket attempts wait w]
          acquire_lock_body_def split: sum.splits)
  moreover have "self w2 = self w"
    using get_lock_Some(2) [OF assms(2)] is_locked_ok(2) [OF assms(3)] by simp
  moreover have t: "trace (asyncio_sleep others wait w2) =
           trace w @ [EvGetLock cid, EvIsLocked ticket, EvSleep wait]"
    using get_lock_Some(1) [OF assms(2)] is_locked_ok(1) [OF assms(3)]
    by (simp add: asyncio_sleep_trace)
  moreover have "trace w3 =
        trace w @ [EvGetLock cid, EvIsLocked ticket, EvSleep wait, EvGetLock cid] @
          (if has_record (asyncio_sleep others wait w2) cid
           then [EvRemoveExpired, EvSaveLock] else [])"
    if "update_lock cid (asyncio_sleep others wait w2) = (Inr u, w3)" for u w3
    using update_lock_ok(1) [OF that] t by simp
  ultimately show ?thesis by blast
qed

theorem sleep_then_update_then_decrement_witness:
  "(0::int) < 2 \<and>
   fst (get_lock ''c'' two_ticket_world) = Inr (Some 0) \<and>
   fst (is_locked 0 2 (snd (get_lock ''c'' two_ticket_world))) = True \<and>
   acquire_lock id ''c'' 2 2 1 two_ticket_world =
     acquire_lock id ''c'' 2 1 1
       (snd (update_lock ''c'' (asyncio_sleep id 1
          (snd (is_locked 0 2 (snd (get_lock ''c'' two_ticket_world))))))) \<and>
   trace (snd (update_lock ''c'' (asyncio_sleep id 1
          (snd (is_locked 0 2 (snd (get_lock ''c'' two_ticket_world))))))) =
     trace two_ticket_world @
       [EvGetLock ''c'', EvIsLocked 2, EvSleep 1, EvGetLock ''c'', EvRemoveExpired, EvSaveLock]"
proof -
  let ?w1 = "snd (get_lock ''c'' two_ticket_world)"
  let ?w2 = "snd (is_locked 0 2 ?w1)"
  let ?w3 = "snd (update_lock ''c'' (asyncio_sleep id 1 ?w2))"
  have g: "fst (get_lock ''c'' two_ticket_world) = Inr (Some 0)"
    by (simp add: run_defs del: set_filter)
  have c: "fst (is_locked 0 2 ?w1) = True"
    by (simp add: run_defs del: set_filter)
  have u: "fst (update_lock ''c'' (asyncio_sleep id 1 ?w2)) = Inr ()"
    by (simp add: run_defs del: set_filter)
  have r: "has_record (asyncio_sleep id 1 ?w2) ''c''"
    by (simp add: run_defs del: set_filter)
  have g': "get_lock ''c'' two_ticket_world = (Inr (Some 0), ?w1)"
    using g by (simp add: prod_eq_iff)
  have c': "is_locked 0 2 ?w1 = (True, ?w2)"
    using c by (simp add: prod_eq_iff)
  have u': "update_lock ''c'' (asyncio_sleep id 1 ?w2) = (Inr (), ?w3)"
    using u by (simp add: prod_eq_iff)
  note law = sleep_then_update_then_decrement [of 2 "''c''" two_ticket_world 0 ?w1 2 ?w2 id 1,
      OF _ g' c']
  from law have "acquire_lock id ''c'' 2 2 1 two_ticket_world =
      (case update_lock ''c'' (asyncio_sleep id 1 ?w2) of
         (Inl e, w3) \<Rightarrow> (Inl e, w3)
       | (Inr u, w3) \<Rightarrow> acquire_lock id ''c'' 2 (2 - 1) 1 w3)"
    by simp
  then have step:
    "acquire_lock id ''c'' 2 2 1 two_ticket_world = acquire_lock id ''c'' 2 1 1 ?w3"
    using u by (simp add: case_prod_unfold)
  from law have "\<forall>u w3. update_lock ''c'' (asyncio_sleep id 1 ?w2) = (Inr u, w3) \<longrightarrow>
            trace w3 = trace two_ticket_world @
              [EvGetLock ''c'', EvIsLocked 2, EvSleep 1, EvGetLock ''c''] @
              (if has_record (asyncio_sleep id 1 ?w2) ''c''
               then [EvRemoveExpired, EvSaveLock] else [])"
    by simp
  with u' r have "trace ?w3 = trace two_ticket_world @
       [EvGetLock ''c'', EvIsLocked 2, EvSleep 1, EvGetLock ''c'', EvRemoveExpired, EvSaveLock]"
    by simp
  with g c step show ?thesis by simp
qed

text \<open>
  C9. \<^verbatim>\<open>_acquire_lock\<close> ends in the backend's connection error exactly when the backend
  is unreachable for a request the call makes: some pass within the attempt budget,
  reached through passes that all went round again, meets an unreachable redis at its
  fetch or at the fetch or the save of its \<^verbatim>\<open>update_lock\<close>. So an unreachable backend
  is never reported as \<^verbatim>\<open>LockError\<close>, and \<^verbatim>\<open>LockError\<close> is never reported as a backend
  failure. In particular a redis store that is unreachable at the first request makes
  \<^verbatim>\<open>_acquire_lock\<close> raise the connection error after that one request, and makes
  \<^verbatim>\<open>lock\<close> raise it too (scenario E). The connection errors the call leaves on its
  trace tell the same story.
\<close>

theorem backend_error_surfaces:
  "(fst (acquire_lock others cid ticket attempts wait w) = Inl BackendUnavailable) =
     (\<exists>k. int k < attempts \<and>
          (\<forall>j<k. fst (acquire_lock_body others cid ticket wait
                         (after_passes others cid ticket wait j w)) = Continue) \<and>
          pass_hits_outage others cid ticket wait (after_passes others cid ticket wait k w)) \<and>
   (0 < attempts \<and> self w = RedisLockStore lt r \<and> unreachable w (length (trace w)) \<longrightarrow>
      acquire_lock others cid ticket attempts wait w =
        (Inl BackendUnavailable, emit EvBackendError (emit (EvGetLock cid) w))) \<and>
   (self w = RedisLockStore lt r \<and> unreachable w (length (trace w)) \<longrightarrow>
      fst (lock others block cid attempts wait w) = Inl BackendUnavailable) \<and>
   (EvBackendError \<in> set (drop (length (trace w))
        (trace (snd (acquire_lock others cid ticket attempts wait w))))) =
     (fst (acquire_lock others cid ticket attempts wait w) = Inl BackendUnavailable)"
proof -
  have "(fst (acquire_lock others cid ticket attempts wait w) = Inl BackendUnavailable) =
     (\<exists>k. int k < attempts \<and>
          (\<forall>j<k. fst (acquire_lock_body others cid ticket wait
                         (after_passes others cid ticket wait j w)) = Continue) \<and>
          pass_hits_outage others cid ticket wait (after_passes others cid ticket wait k w))"
    using outage_behind_error [of others cid ticket attempts wait w]
      outage_in_pass [of _ attempts others cid ticket wait w]
    by blast
  moreover have "(EvBackendError \<in> set (drop (length (trace w))
        (trace (snd (acquire_lock others cid ticket attempts wait w))))) =
     (fst (acquire_lock others cid ticket attempts wait w) = Inl BackendUnavailable)"
    using acquire_lock_events [of others cid ticket attempts wait w] by auto
  ultimately show ?thesis
    using first_request_unreachable [of attempts w lt r others cid ticket wait]
      lock_unreachable [of w lt r others block cid attempts wait]
    by blast
qed

text \<open>
  Against the redis record of \<open>''c''\<close> with five attempts: when only the sixth request
  fails, it is the save of the first \<^verbatim>\<open>update_lock\<close>; when only the seventh fails, the
  first pass goes round and the fetch of the second pass fails; when every request fails,
  the first fetch does, here for a conversation \<open>''d''\<close> that has no record.
\<close>

theorem backend_error_surfaces_witness:
  "pass_hits_outage id ''c'' 2 1 (redis_world stale_keyspace (\<lambda>i. i = 5)) \<and>
   fst (acquire_lock id ''c'' 2 5 1 (redis_world stale_keyspace (\<lambda>i. i = 5))) =
     Inl BackendUnavailable \<and>
   trace (snd (acquire_lock id ''c'' 2 5 1 (redis_world stale_keyspace (\<lambda>i. i = 5)))) =
     [EvGetLock ''c'', EvIsLocked 2, EvSleep 1, EvGetLock ''c'', EvRemoveExpired, EvSaveLock,
      EvBackendError] \<and>
   fst (acquire_lock_body id ''c'' 2 1 (redis_world stale_keyspace (\<lambda>i. i = 6))) = Continue \<and>
   pass_hits_outage id ''c'' 2 1
     (after_passes id ''c'' 2 1 1 (redis_world stale_keyspace (\<lambda>i. i = 6))) \<and>
   fst (acquire_lock id ''c'' 2 5 1 (redis_world stale_keyspace (\<lambda>i. i = 6))) =
     Inl BackendUnavailable \<and>
   acquire_lock id ''d'' 2 5 1 (redis_world stale_keyspace (\<lambda>i. True)) =
     (Inl BackendUnavailable,
      (redis_world stale_keyspace (\<lambda>i. True))\<lparr>trace := [EvGetLock ''d'', EvBackendError]\<rparr>) \<and>
   fst (lock id (\<lambda>l v. (Inr l, v)) ''d'' 5 1 (redis_world stale_keyspace (\<lambda>i. True))) =
     Inl BackendUnavailable"
proof -
  let ?a = "redis_world stale_keyspace (\<lambda>i. i = 5)"
  let ?b = "redis_world stale_keyspace (\<lambda>i. i = 6)"
  let ?c = "redis_world stale_keyspace (\<lambda>i. True)"
  note law = backend_error_surfaces [of id "''c''" 2 5 1]
  have a0: "pass_hits_outage id ''c'' 2 1 (after_passes id ''c'' 2 1 0 ?a)"
    by (simp add: pass_hits_outage_def request_fails_def run_defs del: set_filter)
  have "int 0 < 5 \<and>
        (\<forall>j<0. fst (acquire_lock_body id ''c'' 2 1 (after_passes id ''c'' 2 1 j ?a)) = Continue) \<and>
        pass_hits_outage id ''c'' 2 1 (after_passes id ''c'' 2 1 0 ?a)"
    using a0 by simp
  then have a: "fst (acquire_lock id ''c'' 2 5 1 ?a) = Inl BackendUnavailable"
    using law [of ?a] by blast
  have ta: "trace (snd (acquire_lock id ''c'' 2 5 1 ?a)) =
     [EvGetLock ''c'', EvIsLocked 2, EvSleep 1, EvGetLock ''c'', EvRemoveExpired, EvSaveLock,
      EvBackendError]"
    by (simp add: run_defs acquire_lock.simps del: set_filter)
  have b0: "fst (acquire_lock_body id ''c'' 2 1 ?b) = Continue"
    by (simp add: run_defs del: set_filter)
  have b1: "pass_hits_outage id ''c'' 2 1 (after_passes id ''c'' 2 1 (Suc 0) ?b)"
    by (simp add: pass_hits_outage_def request_fails_def run_defs del: set_filter)
  have "int (Suc 0) < 5 \<and>
        (\<forall>j<Suc 0. fst (acquire_lock_body id ''c'' 2 1 (after_passes id ''c'' 2 1 j ?b)) =
                     Continue) \<and>
        pass_hits_outage id ''c'' 2 1 (after_passes id ''c'' 2 1 (Suc 0) ?b)"
    using b0 b1 by simp
  then have b: "fst (acquire_lock id ''c'' 2 5 1 ?b) = Inl BackendUnavailable"
    using law [of ?b] by blast
  have redis: "self ?c = RedisLockStore 60
      \<lparr>host = Some ''localhost'', port = 6379, db = 1, password = None,
       keyspace = stale_keyspace\<rparr>"
    and down: "unreachable ?c (length (trace ?c))"
    by (simp_all add: redis_world_def RedisLockStore_init_def DEFAULT_LOCK_LIFETIME_def)
  from backend_error_surfaces [of id "''d''" 2 5 1 ?c _ _ "\<lambda>l v. (Inr l, v)"] redis down
  have c: "acquire_lock id ''d'' 2 5 1 ?c =
             (Inl BackendUnavailable, emit EvBackendError (emit (EvGetLock ''d'') ?c))"
    and d: "fst (lock id (\<lambda>l v. (Inr l, v)) ''d'' 5 1 ?c) = Inl BackendUnavailable"
    by simp_all
  have absent: "keyspace (red (self ?c)) ''d'' = None"
    and run_c: "fst (acquire_lock id ''d'' 2 5 1 ?c) = Inl BackendUnavailable"
    and run_d: "fst (lock id (\<lambda>l v. (Inr l, v)) ''d'' 5 1 ?c) = Inl BackendUnavailable"
    by (simp_all add: run_defs acquire_lock.simps del: set_filter)
  have "emit EvBackendError (emit (EvGetLock ''d'') ?c) =
        ?c\<lparr>trace := [EvGetLock ''d'', EvBackendError]\<rparr>"
    by (simp add: emit_def redis_world_def)
  with a0 a ta b0 b1 b c d run_c run_d show ?thesis by simp
qed

section \<open>Issuing tickets\<close>

text \<open>
  C5. The specification has the scoped lock operation issue its ticket with the
  lifetime the store was configured with. On a store configured with lifetime 120,
  \<^verbatim>\<open>lock\<close> hands \<^verbatim>\<open>TicketLock.issue_ticket\<close> the lifetime 60 at time 0, and the ticket the
  caller's block finds in the queue expires at 60, not at 120: \<^verbatim>\<open>lock\<close> calls
  \<^verbatim>\<open>issue_ticket\<close> without a lifetime, the signature fills in
  \<^verbatim>\<open>DEFAULT_LOCK_LIFETIME\<close>, and the fallback to \<^verbatim>\<open>self.lifetime\<close> never runs.
\<close>

theorem lock_ignores_configured_lifetime:
  "lifetime (self (memory_world 120)) = 120 \<and> now (memory_world 120) = 0 \<and>
   fst (lock id (\<lambda>l v. (Inr (tickets (heap v l)), v)) ''c'' 1 1 (memory_world 120)) =
     Inr [\<lparr>number = 1, expires_at = 60\<rparr>] \<and>
   take 3 (trace (snd (lock id (\<lambda>l v. (Inr (tickets (heap v l)), v)) ''c'' 1 1
       (memory_world 120)))) =
     [EvGetLock ''c'', EvSaveLock, EvIssueTicket 60]"
  by (simp add: run_defs acquire_lock.simps del: set_filter)

section \<open>Release and deletion\<close>

text \<open>
  The end of a release that finds nobody waiting afterwards, on the trace.
\<close>

lemma cleanup_idle:
  assumes ran: "cleanup cid n w = (Inr (), w')"
    and idle: "fst (is_someone_waiting cid w') = Inr False"
  shows "fst (get_lock cid w') = Inr None \<and>
         trace w' = trace w @
           (if has_record w cid
            then [EvGetLock cid, EvRemoveTicketFor n, EvSaveLock,
                  EvGetLock cid, EvIsSomeoneWaiting,
                  EvDeleteLock cid, EvLogDeletion cid True]
            else [EvGetLock cid, EvGetLock cid, EvDeleteLock cid, EvLogDeletion cid False])"
proof -
  obtain u w1 where fs: "finish_serving cid n w = (Inr u, w1)"
    using ran by (auto simp: cleanup_def split: prod.splits sum.splits)
  obtain b w2 where sw: "is_someone_waiting cid w1 = (Inr b, w2)"
    using ran fs by (auto simp: cleanup_def split: prod.splits sum.splits)
  have "\<not> b"
  proof
    assume b
    with ran fs sw have "w' = w2" by (simp add: cleanup_def)
    with waiting_stays_waiting [of cid w1 w2] sw \<open>b\<close> idle show False by simp
  qed
  with ran fs sw obtain r where dl: "delete_lock cid w2 = (Inr r, w')"
    by (auto simp: cleanup_def split: prod.splits sum.splits)
  have rec2: "has_record w2 cid = has_record w cid"
    using finish_serving_ok(2) [OF fs] is_someone_waiting_ok(2) [OF sw]
    by (simp add: has_record_def)
  from is_someone_waiting_fetched [OF idle] obtain x where x: "fst (get_lock cid w') = Inr x" ..
  with get_lock_has_record [OF x] delete_lock_ok(3) [OF dl]
  have "fst (get_lock cid w') = Inr None"
    by simp
  moreover have "trace w' = trace w @
           (if has_record w cid
            then [EvGetLock cid, EvRemoveTicketFor n, EvSaveLock,
                  EvGetLock cid, EvIsSomeoneWaiting,
                  EvDeleteLock cid, EvLogDeletion cid True]
            else [EvGetLock cid, EvGetLock cid, EvDeleteLock cid, EvLogDeletion cid False])"
    using finish_serving_ok [OF fs] is_someone_waiting_ok(1) [OF sw] delete_lock_ok(2) [OF dl] rec2
    by simp
  ultimately show ?thesis by simp
qed

lemma cleanup_state_absent:
  assumes ran: "cleanup cid n w = (Inr (), w')" and "stored_queue w cid = None"
  shows "stored_queue w' cid = None"
proof -
  obtain u w1 where fs: "finish_serving cid n w = (Inr u, w1)"
    using ran by (auto simp: cleanup_def split: prod.splits sum.splits)
  obtain b w2 where sw: "is_someone_waiting cid w1 = (Inr b, w2)"
    using ran fs by (auto simp: cleanup_def split: prod.splits sum.splits)
  have "\<not> has_record w cid" using assms(2) by (simp add: has_record_stored)
  with finish_serving_ok(2) [OF fs] have n1: "\<not> has_record w1 cid" by simp
  then have "\<not> b" using sw
    by (auto simp: is_someone_waiting_def get_lock_def has_record_def new_object_def
          split: store_splits)
  with ran fs sw obtain r where "delete_lock cid w2 = (Inr r, w')"
    by (auto simp: cleanup_def split: prod.splits sum.splits)
  then show ?thesis by (rule delete_lock_state)
qed

text \<open>
  C3. Once \<^verbatim>\<open>cleanup(conversation_id, ticket_number)\<close> has run to its end:

  \<^item> if \<^verbatim>\<open>is_someone_waiting\<close> then answers false for the conversation id,
    \<^verbatim>\<open>get_lock\<close> finds no record for it, and the calls came in the order of the release
    protocol: remove the caller's ticket and save, fetch again and ask for waiters,
    delete;
  \<^item> for a queue stored under its own conversation id, \<^verbatim>\<open>finish_serving\<close> has first
    left that queue stored without the caller's ticket; then, if no unexpired ticket
    remains in it, the record is gone, and otherwise the record stays and holds the
    queue without the caller's ticket (pruned as well in memory, where the waiter
    check prunes the stored object itself);
  \<^item> if there was no record, there is none.
\<close>

theorem cleanup_no_waiters_no_record:
  assumes ran: "cleanup cid n w = (Inr (), w')"
  shows "(fst (is_someone_waiting cid w') = Inr False \<longrightarrow>
            fst (get_lock cid w') = Inr None \<and>
            trace w' = trace w @
              (if has_record w cid
               then [EvGetLock cid, EvRemoveTicketFor n, EvSaveLock,
                     EvGetLock cid, EvIsSomeoneWaiting,
                     EvDeleteLock cid, EvLogDeletion cid True]
               else [EvGetLock cid, EvGetLock cid, EvDeleteLock cid,
                     EvLogDeletion cid False])) \<and>
         (\<forall>q. stored_queue w cid = Some q \<and> conversation_id q = cid \<longrightarrow>
            (\<exists>w1. finish_serving cid n w = (Inr (), w1) \<and>
                  stored_queue w1 cid = Some (TicketLock_remove_ticket_for n q)) \<and>
            (if tickets (TicketLock_remove_expired_tickets (now w)
                           (TicketLock_remove_ticket_for n q)) = []
             then stored_queue w' cid = None
             else stored_queue w' cid =
                    Some (case self w of
                            InMemoryLockStore lt locks \<Rightarrow>
                              TicketLock_remove_expired_tickets (now w)
                                (TicketLock_remove_ticket_for n q)
                          | RedisLockStore lt r \<Rightarrow> TicketLock_remove_ticket_for n q))) \<and>
         (stored_queue w cid = None \<longrightarrow> stored_queue w' cid = None)"
  using cleanup_idle [OF ran] cleanup_state [OF ran] cleanup_state_absent [OF ran]
  by blast

text \<open>
  In memory the only ticket is released and the record goes. In redis, releasing
  ticket 1 from the queue of tickets 0 (expired), 1 and 2 leaves the record with
  tickets 0 and 2; releasing ticket 1 from the queue of tickets 0 (expired) and 1
  deletes the record.
\<close>

theorem cleanup_no_waiters_no_record_witness:
  "cleanup ''c'' 1 one_ticket_world = (Inr (), snd (cleanup ''c'' 1 one_ticket_world)) \<and>
   fst (is_someone_waiting ''c'' (snd (cleanup ''c'' 1 one_ticket_world))) = Inr False \<and>
   fst (get_lock ''c'' (snd (cleanup ''c'' 1 one_ticket_world))) = Inr None \<and>
   trace (snd (cleanup ''c'' 1 one_ticket_world)) =
     trace one_ticket_world @
       [EvGetLock ''c'', EvRemoveTicketFor 1, EvSaveLock, EvGetLock ''c'', EvIsSomeoneWaiting,
        EvDeleteLock ''c'', EvLogDeletion ''c'' True] \<and>
   fst (cleanup ''c'' 1 (redis_world stale_keyspace (\<lambda>i. False))) = Inr () \<and>
   stored_queue (snd (cleanup ''c'' 1 (redis_world stale_keyspace (\<lambda>i. False)))) ''c'' =
     Some \<lparr>conversation_id = ''c'',
           tickets = [\<lparr>number = 0, expires_at = 0\<rparr>, \<lparr>number = 2, expires_at = 60\<rparr>],
           next_ticket_number = 3\<rparr> \<and>
   fst (cleanup ''c'' 1 (redis_world lone_keyspace (\<lambda>i. False))) = Inr () \<and>
   stored_queue (snd (cleanup ''c'' 1 (redis_world lone_keyspace (\<lambda>i. False)))) ''c'' = None"
proof -
  let ?m = "one_ticket_world"
  let ?s = "redis_world stale_keyspace (\<lambda>i. False)"
  let ?l = "redis_world lone_keyspace (\<lambda>i. False)"
  let ?qs = "\<lparr>conversation_id = ''c'',
           tickets = [\<lparr>number = 0, expires_at = 0\<rparr>, \<lparr>number = 1, expires_at = 60\<rparr>,
                      \<lparr>number = 2, expires_at = 60\<rparr>],
           next_ticket_number = 3\<rparr>"
  let ?ql = "\<lparr>conversation_id = ''c'',
           tickets = [\<lparr>number = 0, expires_at = 0\<rparr>, \<lparr>number = 1, expires_at = 60\<rparr>],
           next_ticket_number = 2\<rparr>"
  have ran: "cleanup ''c'' 1 ?m = (Inr (), snd (cleanup ''c'' 1 ?m))"
    by (simp add: run_defs)
  have idle: "fst (is_someone_waiting ''c'' (snd (cleanup ''c'' 1 ?m))) = Inr False"
    by (simp add: run_defs)
  have rec: "has_record ?m ''c''"
    by (simp add: run_defs)
  from cleanup_no_waiters_no_record [OF ran] idle rec
  have m: "fst (get_lock ''c'' (snd (cleanup ''c'' 1 ?m))) = Inr None \<and>
     trace (snd (cleanup ''c'' 1 ?m)) =
       trace ?m @
         [EvGetLock ''c'', EvRemoveTicketFor 1, EvSaveLock, EvGetLock ''c'', EvIsSomeoneWaiting,
          EvDeleteLock ''c'', EvLogDeletion ''c'' True]"
    by simp
  have rans: "fst (cleanup ''c'' 1 ?s) = Inr ()"
    by (simp add: run_defs)
  then have rans': "cleanup ''c'' 1 ?s = (Inr (), snd (cleanup ''c'' 1 ?s))"
    by (simp add: prod_eq_iff)
  have qs: "stored_queue ?s ''c'' = Some ?qs \<and> conversation_id ?qs = ''c''"
    by (simp add: run_defs)
  have kind_s: "self ?s = RedisLockStore 60
      \<lparr>host = Some ''localhost'', port = 6379, db = 1, password = None,
       keyspace = stale_keyspace\<rparr>" and now_s: "now ?s = 0"
    by (simp_all add: redis_world_def RedisLockStore_init_def DEFAULT_LOCK_LIFETIME_def)
  from cleanup_no_waiters_no_record [OF rans'] qs
  have "if tickets (TicketLock_remove_expired_tickets (now ?s)
                      (TicketLock_remove_ticket_for 1 ?qs)) = []
        then stored_queue (snd (cleanup ''c'' 1 ?s)) ''c'' = None
        else stored_queue (snd (cleanup ''c'' 1 ?s)) ''c'' =
               Some (case self ?s of
                       InMemoryLockStore lt locks \<Rightarrow>
                         TicketLock_remove_expired_tickets (now ?s)
                           (TicketLock_remove_ticket_for 1 ?qs)
                     | RedisLockStore lt r \<Rightarrow> TicketLock_remove_ticket_for 1 ?qs)"
    by blast
  then have s: "stored_queue (snd (cleanup ''c'' 1 ?s)) ''c'' =
     Some \<lparr>conversation_id = ''c'',
           tickets = [\<lparr>number = 0, expires_at = 0\<rparr>, \<lparr>number = 2, expires_at = 60\<rparr>],
           next_ticket_number = 3\<rparr>"
    unfolding kind_s now_s
    by (simp add: TicketLock_remove_expired_tickets_def TicketLock_remove_ticket_for_def)
  have ranl: "fst (cleanup ''c'' 1 ?l) = Inr ()"
    by (simp add: run_defs)
  then have ranl': "cleanup ''c'' 1 ?l = (Inr (), snd (cleanup ''c'' 1 ?l))"
    by (simp add: prod_eq_iff)
  have ql: "stored_queue ?l ''c'' = Some ?ql \<and> conversation_id ?ql = ''c''"
    by (simp add: run_defs)
  have now_l: "now ?l = 0"
    by (simp add: redis_world_def)
  from cleanup_no_waiters_no_record [OF ranl'] ql
  have "if tickets (TicketLock_remove_expired_tickets (now ?l)
                      (TicketLock_remove_ticket_for 1 ?ql)) = []
        then stored_queue (snd (cleanup ''c'' 1 ?l)) ''c'' = None
        else stored_queue (snd (cleanup ''c'' 1 ?l)) ''c'' =
               Some (case self ?l of
                       InMemoryLockStore lt locks \<Rightarrow>
                         TicketLock_remove_expired_tickets (now ?l)
                           (TicketLock_remove_ticket_for 1 ?ql)
                     | RedisLockStore lt r \<Rightarrow> TicketLock_remove_ticket_for 1 ?ql)"
    by blast
  then have l: "stored_queue (snd (cleanup ''c'' 1 ?l)) ''c'' = None"
    unfolding now_l
    by (simp add: TicketLock_remove_expired_tickets_def TicketLock_remove_ticket_for_def)
  have run_s: "stored_queue (snd (cleanup ''c'' 1 ?s)) ''c'' =
     Some \<lparr>conversation_id = ''c'',
           tickets = [\<lparr>number = 0, expires_at = 0\<rparr>, \<lparr>number = 2, expires_at = 60\<rparr>],
           next_ticket_number = 3\<rparr>"
    and run_l: "stored_queue (snd (cleanup ''c'' 1 ?l)) ''c'' = None"
    by (simp_all add: run_defs)
  from ran idle m rans s run_s ranl l run_l show ?thesis by simp
qed

text \<open>
  C10. When \<^verbatim>\<open>get_lock\<close> finds no record for the conversation id,
  \<^verbatim>\<open>finish_serving\<close> returns normally and the world is what it was, but for the one
  fetch on the trace: the store, the heap and the clock are untouched, nothing is saved.
\<close>

theorem finish_serving_no_record:
  assumes "fst (get_lock cid w) = Inr None"
  shows "finish_serving cid n w = (Inr (), w\<lparr>trace := trace w @ [EvGetLock cid]\<rparr>)"
  using get_lock_None [OF assms] by (simp add: finish_serving_def)

theorem finish_serving_no_record_witness:
  "fst (get_lock ''d'' one_ticket_world) = Inr None \<and>
   finish_serving ''d'' 1 one_ticket_world =
     (Inr (), one_ticket_world\<lparr>trace := trace one_ticket_world @ [EvGetLock ''d'']\<rparr>)"
proof -
  have absent: "fst (get_lock ''d'' one_ticket_world) = Inr None"
    by (simp add: run_defs)
  from finish_serving_no_record [OF absent] absent show ?thesis
    by simp
qed

text \<open>
  C6, as the specification states it: \<^verbatim>\<open>delete_lock\<close> returns whether a record
  existed. The in-memory store holds a record for \<open>''c''\<close>, and \<^verbatim>\<open>delete_lock\<close> returns
  \<^verbatim>\<open>None\<close>, not the flag.
\<close>

theorem delete_lock_flag_counterexample:
  "has_record one_ticket_world ''c'' \<and>
   fst (delete_lock ''c'' one_ticket_world) = Inr None \<and>
   fst (delete_lock ''c'' one_ticket_world) \<noteq> Inr (Some True)"
  by (simp add: run_defs)

text \<open>
  C6, amended. For every conversation id and either backend, a \<^verbatim>\<open>delete_lock\<close> that
  does not raise returns \<^verbatim>\<open>None\<close>, leaves no record for the conversation id, and
  passes whether a record existed to \<^verbatim>\<open>_log_deletion\<close>, which is the only place the
  flag goes.
\<close>

theorem delete_lock_returns_none:
  assumes "delete_lock cid w = (Inr r, w')"
  shows "r = None \<and>
         trace w' = trace w @ [EvDeleteLock cid, EvLogDeletion cid (has_record w cid)] \<and>
         \<not> has_record w' cid"
  using delete_lock_ok [OF assms] by simp

theorem delete_lock_returns_none_witness:
  "delete_lock ''c'' (redis_world stale_keyspace (\<lambda>i. False)) =
     (Inr None, snd (delete_lock ''c'' (redis_world stale_keyspace (\<lambda>i. False)))) \<and>
   trace (snd (delete_lock ''c'' (redis_world stale_keyspace (\<lambda>i. False)))) =
     [EvDeleteLock ''c'', EvLogDeletion ''c'' True] \<and>
   \<not> has_record (snd (delete_lock ''c'' (redis_world stale_keyspace (\<lambda>i. False)))) ''c''"
proof -
  have ran: "delete_lock ''c'' (redis_world stale_keyspace (\<lambda>i. False)) =
     (Inr None, snd (delete_lock ''c'' (redis_world stale_keyspace (\<lambda>i. False))))"
    by (simp add: run_defs)
  have "has_record (redis_world stale_keyspace (\<lambda>i. False)) ''c''"
    and "trace (redis_world stale_keyspace (\<lambda>i. False)) = []"
    by (simp_all add: run_defs)
  with delete_lock_returns_none [OF ran] ran show ?thesis
    by simp
qed

section \<open>Configuration\<close>

text \<open>
  C7. An endpoint configuration whose type is present and is neither \<open>''in_memory''\<close>
  nor \<open>''redis''\<close> makes \<^verbatim>\<open>find_lock_store\<close> raise \<^verbatim>\<open>ValueError\<close> naming the type, and
  that is the only place the error comes from: \<^verbatim>\<open>issue_ticket\<close>, \<^verbatim>\<open>_acquire_lock\<close> and
  \<^verbatim>\<open>cleanup\<close> never raise it, and neither does \<^verbatim>\<open>lock\<close> unless the caller's own block
  does.
\<close>

theorem find_lock_store_unknown_type:
  assumes "type cfg = Some k" and "k \<noteq> ''in_memory''" and "k \<noteq> ''redis''"
    and "\<forall>l v. fst (block l v) \<noteq> Inl (ValueError m)"
  shows "find_lock_store server (Some cfg) = Inl (ValueError k) \<and>
         fst (issue_ticket cid lt w) \<noteq> Inl (ValueError m) \<and>
         fst (acquire_lock others cid ticket attempts wait w) \<noteq> Inl (ValueError m) \<and>
         fst (cleanup cid ticket w) \<noteq> Inl (ValueError m) \<and>
         fst (lock others block cid attempts wait w) \<noteq> Inl (ValueError m)"
proof -
  have a: "find_lock_store server (Some cfg) = Inl (ValueError k)"
    using assms(1-3) by (simp add: find_lock_store_def)
  have b: "fst (issue_ticket c t v) \<noteq> Inl (ValueError m)" for c t v
    using issue_ticket_raises [of c t v "ValueError m"] by (cases "issue_ticket c t v") auto
  have c: "fst (acquire_lock others c t a wt v) \<noteq> Inl (ValueError m)" for c t a wt v
    using acquire_lock_raises [of others c t a wt v "ValueError m"]
    by (cases "acquire_lock others c t a wt v") auto
  have d: "fst (cleanup c t v) \<noteq> Inl (ValueError m)" for c t v
    using cleanup_raises [of c t v "ValueError m"] by (cases "cleanup c t v") auto
  have e: "fst (lock others block cid attempts wait w) \<noteq> Inl (ValueError m)"
  proof
    assume bad: "fst (lock others block cid attempts wait w) = Inl (ValueError m)"
    obtain r1 w1 where i: "issue_ticket cid (Some (real_of_int DEFAULT_LOCK_LIFETIME)) w = (r1, w1)"
      by (cases "issue_ticket cid (Some (real_of_int DEFAULT_LOCK_LIFETIME)) w")
    show False
    proof (cases r1)
      case (Inl e')
      with bad i b [of cid "Some (real_of_int DEFAULT_LOCK_LIFETIME)" w] show False
        by (simp add: lock_def)
    next
      case (Inr tk)
      obtain r2 w2 where q: "acquire_lock others cid tk attempts wait w1 = (r2, w2)"
        by (cases "acquire_lock others cid tk attempts wait w1")
      obtain r3 w3 where body:
        "(case r2 of Inl e \<Rightarrow> (Inl e, w2) | Inr l \<Rightarrow> block l w2) = (r3, w3)"
        by (cases "(case r2 of Inl e \<Rightarrow> (Inl e, w2) | Inr l \<Rightarrow> block l w2)")
      have r3: "r3 \<noteq> Inl (ValueError m)"
        using body c [of cid tk attempts wait w1] q assms(4)
        by (cases r2) (auto simp: fst_def split: prod.splits)
      obtain r4 w4 where cl: "cleanup cid tk w3 = (r4, w4)"
        by (cases "cleanup cid tk w3")
      from bad i Inr q body cl r3 d [of cid tk w3] show False
        by (cases r4) (auto simp: lock_def)
    qed
  qed
  from a b c d e show ?thesis by simp
qed

theorem find_lock_store_unknown_type_witness:
  "type \<lparr>url = None, type = Some ''sql'',
         kwargs = \<lparr>kw_port = None, kw_db = None, kw_password = None, kw_lifetime = None\<rparr>\<rparr> =
     Some ''sql'' \<and>
   ''sql'' \<noteq> ''in_memory'' \<and> ''sql'' \<noteq> ''redis'' \<and>
   find_lock_store (\<lambda>cid. None)
     (Some \<lparr>url = None, type = Some ''sql'',
            kwargs = \<lparr>kw_port = None, kw_db = None, kw_password = None, kw_lifetime = None\<rparr>\<rparr>) =
     Inl (ValueError ''sql'') \<and>
   fst (lock id (\<lambda>l v. (Inr l, v)) ''c'' 1 1 (memory_world 60)) \<noteq> Inl (ValueError ''sql'')"
proof -
  let ?cfg = "\<lparr>url = None, type = Some ''sql'',
     kwargs = \<lparr>kw_port = None, kw_db = None, kw_password = None, kw_lifetime = None\<rparr>\<rparr>"
  have t: "type ?cfg = Some ''sql''" and n1: "''sql'' \<noteq> ''in_memory''"
    and n2: "''sql'' \<noteq> ''redis''"
    by simp_all
  have blk: "\<forall>l v. fst ((\<lambda>l v. (Inr l, v)) l (v::world)) \<noteq> (Inl (ValueError ''sql'') :: error + nat)"
    by simp
  from find_lock_store_unknown_type [OF t n1 n2 blk, of "\<lambda>cid. None" "''c''" None
      "memory_world 60" id 1 1 1] t
  show ?thesis by simp
qed

end
